theory Spec2Isabelle
  imports Main "HOL-Library.Sublist" "HOL-Library.Word"
begin

section \<open>Text primitives of the host language\<close>

text \<open>
  The service is a Python program (\<^verbatim>\<open>python-service/app.py\<close>). Python text is
  modelled by \<^typ>\<open>string\<close>, one \<^typ>\<open>char\<close> per code point, for the code points
  below 256 (Latin-1). On that range the built-in operations used by the program are the
  ones defined here. The pictographs that prefix the program's log lines lie outside the
  range and are left out of the log texts; the arrow and the dash of the line logged for
  each test result are written \<^verbatim>\<open>>\<close> and \<^verbatim>\<open>-\<close>.
\<close>

definition is_upper :: "char \<Rightarrow> bool" where
  "is_upper c = (let n = (of_char c :: nat) in
     (65 \<le> n \<and> n \<le> 90) \<or> (192 \<le> n \<and> n \<le> 222 \<and> n \<noteq> 215))"

fun lower_char :: "char \<Rightarrow> char" where
  \<comment> \<open>an upper-case letter has bit 5 clear; its lower-case form is 32 higher\<close>
  "lower_char (Char b0 b1 b2 b3 b4 b5 b6 b7) =
     (if is_upper (Char b0 b1 b2 b3 b4 b5 b6 b7) then Char b0 b1 b2 b3 b4 True b6 b7
      else Char b0 b1 b2 b3 b4 b5 b6 b7)"

definition lower :: "string \<Rightarrow> string" where
  \<comment> \<open>\<^verbatim>\<open>str.lower()\<close>\<close>
  "lower s = map lower_char s"

definition is_space :: "char \<Rightarrow> bool" where
  \<comment> \<open>\<^verbatim>\<open>str.isspace()\<close> on one character\<close>
  "is_space c = ((of_char c :: nat) \<in> {9, 10, 11, 12, 13, 28, 29, 30, 31, 32, 133, 160})"

definition is_linebreak :: "char \<Rightarrow> bool" where
  \<comment> \<open>the line boundaries of \<^verbatim>\<open>str.splitlines()\<close>\<close>
  "is_linebreak c = ((of_char c :: nat) \<in> {10, 11, 12, 13, 28, 29, 30, 133})"

definition strip :: "string \<Rightarrow> string" where
  \<comment> \<open>\<^verbatim>\<open>str.strip()\<close>\<close>
  "strip s = rev (dropWhile is_space (rev (dropWhile is_space s)))"

definition startswith :: "string \<Rightarrow> string \<Rightarrow> bool" where
  \<comment> \<open>\<^verbatim>\<open>s.startswith(p)\<close>\<close>
  "startswith s p = (take (length p) s = p)"

definition endswith :: "string \<Rightarrow> string \<Rightarrow> bool" where
  "endswith s p = (length p \<le> length s \<and> drop (length s - length p) s = p)"

fun contains :: "string \<Rightarrow> string \<Rightarrow> bool" where
  \<comment> \<open>\<^verbatim>\<open>p in s\<close> for two strings: \<open>contains s p\<close>\<close>
  "contains [] p = (p = [])"
| "contains (c # cs) p = (startswith (c # cs) p \<or> contains cs p)"

fun find_from :: "nat \<Rightarrow> string \<Rightarrow> string \<Rightarrow> nat option" where
  "find_from i [] p = (if p = [] then Some i else None)"
| "find_from i (c # cs) p =
     (if startswith (c # cs) p then Some i else find_from (Suc i) cs p)"

definition str_find :: "string \<Rightarrow> string \<Rightarrow> nat option" where
  \<comment> \<open>\<^verbatim>\<open>s.find(p)\<close>: the lowest index where \<open>p\<close> occurs, \<open>None\<close> for Python's -1\<close>
  "str_find s p = find_from 0 s p"

fun splitlines_from :: "string \<Rightarrow> string \<Rightarrow> string list" where
  \<comment> \<open>first argument: the characters of the current line, latest first\<close>
  "splitlines_from cur [] = (if cur = [] then [] else [rev cur])"
| "splitlines_from cur (c # cs) =
     (if c = CHR 0x0D \<and> (case cs of [] \<Rightarrow> False | d # _ \<Rightarrow> d = CHR 0x0A)
      then rev cur # splitlines_from [] (tl cs)
      else if is_linebreak c then rev cur # splitlines_from [] cs
      else splitlines_from (c # cur) cs)"

definition splitlines :: "string \<Rightarrow> string list" where
  \<comment> \<open>\<^verbatim>\<open>str.splitlines()\<close>\<close>
  "splitlines s = splitlines_from [] s"

fun join :: "string \<Rightarrow> string list \<Rightarrow> string" where
  \<comment> \<open>\<^verbatim>\<open>sep.join(parts)\<close>\<close>
  "join sep [] = []"
| "join sep [x] = x"
| "join sep (x # y # ys) = x @ sep @ join sep (y # ys)"

definition str_slice :: "string \<Rightarrow> nat \<Rightarrow> nat \<Rightarrow> string" where
  \<comment> \<open>\<^verbatim>\<open>s[i:j]\<close> for \<open>0 \<le> i\<close>, \<open>0 \<le> j\<close>\<close>
  "str_slice s i j = take (j - i) (drop i s)"

definition nl :: string where
  "nl = [CHR 0x0A]"

definition sq :: string where
  \<comment> \<open>the single quote\<close>
  "sq = [CHR 0x27]"

definition dq :: string where
  \<comment> \<open>the double quote\<close>
  "dq = [CHR 0x22]"

definition digit_char :: "nat \<Rightarrow> char" where
  "digit_char d = (if d = 0 then CHR ''0'' else if d = 1 then CHR ''1'' else if d = 2 then CHR ''2''
     else if d = 3 then CHR ''3'' else if d = 4 then CHR ''4'' else if d = 5 then CHR ''5''
     else if d = 6 then CHR ''6'' else if d = 7 then CHR ''7'' else if d = 8 then CHR ''8''
     else CHR ''9'')"

function str_nat :: "nat \<Rightarrow> string" where
  \<comment> \<open>\<^verbatim>\<open>str(n)\<close> for a natural number: its decimal digits\<close>
  "str_nat n = (if n < 10 then [digit_char n] else str_nat (n div 10) @ [digit_char (n mod 10)])"
  by pat_completeness auto
termination
  by (relation "measure (\<lambda>n. n)") auto

declare str_nat.simps [simp del]

definition str_int :: "int \<Rightarrow> string" where
  "str_int i = (if i < 0 then ''-'' @ str_nat (nat (- i)) else str_nat (nat i))"

definition fence :: string where
  \<comment> \<open>three backquotes\<close>
  "fence = [CHR 0x60, CHR 0x60, CHR 0x60]"

section \<open>Script normalisation\<close>

text \<open>
  \<^verbatim>\<open>
  def _clean_script(script: str) -> str:
      if script.startswith("```"):
          lines = [l for l in script.splitlines() if not l.strip().startswith("```")]
          return "\n".join(lines)
      return script.strip()
  \<close>
\<close>

definition clean_script :: "string \<Rightarrow> string" where
  "clean_script script =
     (if startswith script fence
      then join nl (filter (\<lambda>l. \<not> startswith (strip l) fence) (splitlines script))
      else strip script)"

section \<open>Severity classification\<close>

definition critical_keywords :: "string list" where
  "critical_keywords =
     [''timeout'', ''crash'', ''cannot load'', ''failed to load'', ''navigation'', ''net::err'']"

definition high_keywords :: "string list" where
  "high_keywords =
     [''login'', ''checkout'', ''payment'', ''submit'', ''form'', ''authentication'',
      ''authorization'']"

definition medium_keywords :: "string list" where
  "medium_keywords = [''not found'', ''not visible'', ''missing'', ''locator'']"

definition categorize_bug_severity :: "string \<Rightarrow> string \<Rightarrow> string" where
  "categorize_bug_severity error test_name =
     (let error_lower = lower error; test_lower = lower test_name in
      if list_ex (\<lambda>keyword. contains error_lower keyword) critical_keywords then ''critical''
      else if list_ex (\<lambda>keyword. contains test_lower keyword) high_keywords then ''high''
      else if list_ex (\<lambda>keyword. contains error_lower keyword) medium_keywords then ''medium''
      else ''high'')"

section \<open>Exceptions and dynamically typed values\<close>

text \<open>
  Every exception the program can meet is a value of \<open>exn\<close>, carrying the text that
  \<^verbatim>\<open>str(e)\<close> gives. Only \<^verbatim>\<open>subprocess.TimeoutExpired\<close> is told apart by a handler
  of the program; the other classes are kept for reading.
\<close>

datatype exn =
    TimeoutExpired string
  | JSONDecodeError string
  | AttributeError string
  | TypeError string
  | OSError string
  | OtherException string

fun exn_str :: "exn \<Rightarrow> string" where
  "exn_str (TimeoutExpired m) = m"
| "exn_str (JSONDecodeError m) = m"
| "exn_str (AttributeError m) = m"
| "exn_str (TypeError m) = m"
| "exn_str (OSError m) = m"
| "exn_str (OtherException m) = m"

definition seq :: "exn + 'a \<Rightarrow> ('a \<Rightarrow> exn + 'b) \<Rightarrow> exn + 'b" where
  \<comment> \<open>run the first computation; an exception ends the sequence\<close>
  "seq m k = (case m of Inl e \<Rightarrow> Inl e | Inr v \<Rightarrow> k v)"

fun traverse :: "('a \<Rightarrow> exn + 'b) \<Rightarrow> 'a list \<Rightarrow> exn + 'b list" where
  \<comment> \<open>a list comprehension whose element expression may raise\<close>
  "traverse f [] = Inr []"
| "traverse f (x # xs) = seq (f x) (\<lambda>y. seq (traverse f xs) (\<lambda>ys. Inr (y # ys)))"

text \<open>
  The values that \<^verbatim>\<open>json.loads\<close> produces, which are also the values the program
  passes around: \<^verbatim>\<open>None\<close>, booleans, integers, floats (a binary64 bit pattern),
  strings, lists and dictionaries with string keys (in insertion order, keys distinct).
\<close>

datatype json =
    JNull
  | JBool bool
  | JInt int
  | JFloat "64 word"
  | JStr string
  | JArr "json list"
  | JObj "(string \<times> json) list"

fun type_name :: "json \<Rightarrow> string" where
  "type_name JNull = ''NoneType''"
| "type_name (JBool _) = ''bool''"
| "type_name (JInt _) = ''int''"
| "type_name (JFloat _) = ''float''"
| "type_name (JStr _) = ''str''"
| "type_name (JArr _) = ''list''"
| "type_name (JObj _) = ''dict''"

definition no_attribute :: "json \<Rightarrow> string \<Rightarrow> exn" where
  "no_attribute v a =
     AttributeError (sq @ type_name v @ sq @ '' object has no attribute '' @ sq @ a @ sq)"

fun truthy :: "json \<Rightarrow> bool" where
  \<comment> \<open>\<^verbatim>\<open>bool(v)\<close>; a float is false when it is plus or minus zero\<close>
  "truthy JNull = False"
| "truthy (JBool b) = b"
| "truthy (JInt i) = (i \<noteq> 0)"
| "truthy (JFloat w) = (w \<noteq> 0 \<and> w \<noteq> 0x8000000000000000)"
| "truthy (JStr s) = (s \<noteq> [])"
| "truthy (JArr xs) = (xs \<noteq> [])"
| "truthy (JObj kvs) = (kvs \<noteq> [])"

definition dict_get :: "(string \<times> json) list \<Rightarrow> string \<Rightarrow> json \<Rightarrow> json" where
  \<comment> \<open>\<^verbatim>\<open>d.get(k, default)\<close> on a dictionary\<close>
  "dict_get kvs k d = (case map_of kvs k of Some v \<Rightarrow> v | None \<Rightarrow> d)"

fun py_get :: "json \<Rightarrow> string \<Rightarrow> json \<Rightarrow> exn + json" where
  \<comment> \<open>\<^verbatim>\<open>v.get(k, default)\<close> on any value: only a dictionary has the method\<close>
  "py_get (JObj kvs) k d = Inr (dict_get kvs k d)"
| "py_get v k d = Inl (no_attribute v ''get'')"

fun py_lower :: "json \<Rightarrow> exn + string" where
  \<comment> \<open>\<^verbatim>\<open>v.lower()\<close>\<close>
  "py_lower (JStr s) = Inr (lower s)"
| "py_lower v = Inl (no_attribute v ''lower'')"

fun py_take :: "nat \<Rightarrow> json \<Rightarrow> exn + json" where
  \<comment> \<open>\<^verbatim>\<open>v[:n]\<close>; a dictionary rejects the slice as a key (the message of CPython 3.11)\<close>
  "py_take n (JStr s) = Inr (JStr (take n s))"
| "py_take n (JArr xs) = Inr (JArr (take n xs))"
| "py_take n (JObj kvs) = Inl (TypeError (''unhashable type: '' @ sq @ ''slice'' @ sq))"
| "py_take n v = Inl (TypeError (sq @ type_name v @ sq @ '' object is not subscriptable''))"

fun py_iter :: "json \<Rightarrow> exn + json list" where
  \<comment> \<open>the items a \<^verbatim>\<open>for\<close> loop over \<open>v\<close> visits: the elements of a list, the
      characters of a string, the keys of a dictionary\<close>
  "py_iter (JArr xs) = Inr xs"
| "py_iter (JStr s) = Inr (map (\<lambda>c. JStr [c]) s)"
| "py_iter (JObj kvs) = Inr (map (\<lambda>kv. JStr (fst kv)) kvs)"
| "py_iter v = Inl (TypeError (sq @ type_name v @ sq @ '' object is not iterable''))"

fun py_len :: "json \<Rightarrow> exn + nat" where
  \<comment> \<open>\<^verbatim>\<open>len(v)\<close>\<close>
  "py_len (JStr s) = Inr (length s)"
| "py_len (JArr xs) = Inr (length xs)"
| "py_len (JObj kvs) = Inr (length kvs)"
| "py_len v = Inl (TypeError (''object of type '' @ sq @ type_name v @ sq @ '' has no len()''))"

text \<open>
  Library functions the program calls but does not define are parameters of the model:
  the JSON parser (\<open>None\<close> when it raises), \<^verbatim>\<open>str\<close> of a value that is not a string (the
  text of numbers, of lists and of dictionaries), the regular-expression searches of the
  script analyser, the one-decimal rendering of milliseconds as seconds (a floating-point
  format), and the base-64 encoder.
\<close>

datatype pattern =
    TestDecl \<comment> \<open>\<^verbatim>\<open>test\(['\"](.+?)['\"]\s*,\<close>\<close>
  | GetByText \<comment> \<open>\<^verbatim>\<open>getByText\(['\"](.+?)['\"]\)\<close>\<close>
  | GetByLabel \<comment> \<open>\<^verbatim>\<open>getByLabel\(['\"](.+?)['\"]\)\<close>\<close>
  | GetByPlaceholder \<comment> \<open>\<^verbatim>\<open>getByPlaceholder\(['\"](.+?)['\"]\)\<close>\<close>
  | GetByTitle \<comment> \<open>\<^verbatim>\<open>getByTitle\(['\"](.+?)['\"]\)\<close>\<close>
  | Locator \<comment> \<open>\<^verbatim>\<open>locator\(['\"](.+?)['\"]\)\<close>\<close>

record lib =
  json_loads :: "string \<Rightarrow> json option"
  py_repr :: "json \<Rightarrow> string"
  re_findall :: "pattern \<Rightarrow> string \<Rightarrow> string list"
  re_findall_role :: "string \<Rightarrow> (string \<times> string) list"
  format_tenths :: "int \<Rightarrow> string"
  b64encode :: "string \<Rightarrow> string"

definition py_str :: "lib \<Rightarrow> json \<Rightarrow> string" where
  \<comment> \<open>\<^verbatim>\<open>str(v)\<close>, also what an f-string puts for \<^verbatim>\<open>{v}\<close>\<close>
  "py_str L v = (case v of JStr s \<Rightarrow> s | _ \<Rightarrow> py_repr L v)"

definition quoted :: "string \<Rightarrow> string" where
  "quoted s = sq @ s @ sq"

section \<open>Result extraction\<close>

definition suites_marker :: string where
  "suites_marker = ''{'' @ dq @ ''suites'' @ dq"

fun shrink_span :: "lib \<Rightarrow> string \<Rightarrow> nat \<Rightarrow> nat \<Rightarrow> json" where
  \<comment> \<open>\<^verbatim>\<open>for end in range(len(stdout), start, -1)\<close>, by the length \<open>end - start\<close> of the span
      still to try\<close>
  "shrink_span L stdout start 0 = JNull"
| "shrink_span L stdout start (Suc k) =
     (case json_loads L (str_slice stdout start (start + Suc k)) of
        Some j \<Rightarrow> j
      | None \<Rightarrow> shrink_span L stdout start k)"

definition extract_json :: "lib \<Rightarrow> string \<Rightarrow> json" where
  "extract_json L stdout =
     (if stdout = [] then JNull
      else case json_loads L stdout of
        Some j \<Rightarrow> j
      | None \<Rightarrow>
          (case str_find stdout suites_marker of
             None \<Rightarrow> JNull
           | Some start \<Rightarrow> shrink_span L stdout start (length stdout - start)))"

section \<open>Script analysis\<close>

record script_analysis =
  test_names :: "string list"
  selectors :: "string list"
  assertions :: "string list"
  interactions :: "string list"
  element_texts :: "string list"

definition parse_test_script :: "lib \<Rightarrow> string \<Rightarrow> script_analysis" where
  \<comment> \<open>the role pattern has two groups, the name being empty when absent; the other patterns
      have one group, and the matches of all but the CSS locator are element texts\<close>
  "parse_test_script L script =
     (let roles = re_findall_role L script;
          texts = re_findall L GetByText script @ re_findall L GetByLabel script @
                  re_findall L GetByPlaceholder script @ re_findall L GetByTitle script
      in \<lparr> test_names = take 10 (re_findall L TestDecl script),
           selectors = map (\<lambda>m. join '' '' (filter (\<lambda>g. g \<noteq> []) [fst m, snd m])) roles @
                       texts @ re_findall L Locator script,
           assertions = [],
           interactions = [],
           element_texts = map snd (filter (\<lambda>m. snd m \<noteq> []) roles) @ texts \<rparr>)"

section \<open>Failures, page snapshots and bug reports\<close>

text \<open>
  A failure is the dictionary \<^verbatim>\<open>{"title": ..., "error": ...}\<close>; every one the program
  builds has both keys, so the defaults of its \<^verbatim>\<open>.get\<close> calls on failures are never
  taken. The two values come from the runner's report and need not be strings.
  The page snapshot is an optional dictionary.
\<close>

record failure =
  f_title :: json
  f_error :: json

type_synonym page_info = "(string \<times> json) list option"

definition page_present :: "page_info \<Rightarrow> bool" where
  \<comment> \<open>\<^verbatim>\<open>if page_info:\<close>\<close>
  "page_present page = (case page of None \<Rightarrow> False | Some kvs \<Rightarrow> kvs \<noteq> [])"

definition page_get :: "page_info \<Rightarrow> string \<Rightarrow> json \<Rightarrow> json" where
  \<comment> \<open>\<^verbatim>\<open>page_info.get(k, d)\<close> where the snapshot is known to be present\<close>
  "page_get page k d = (case page of None \<Rightarrow> d | Some kvs \<Rightarrow> dict_get kvs k d)"

definition page_title_or :: "page_info \<Rightarrow> string \<Rightarrow> json" where
  \<comment> \<open>\<^verbatim>\<open>page_info.get('title', d) if page_info else d\<close>\<close>
  "page_title_or page d = (if page_present page then page_get page ''title'' (JStr d) else JStr d)"

datatype ident =
    FreshId string \<comment> \<open>the prefix followed by twelve random hexadecimal digits\<close>
  | Given json

record bug =
  bugId :: ident
  bug_title :: string
  bug_description :: string
  severity :: string
  steps_to_reproduce :: json
  expected_result :: json
  actual_result :: json
  user_impact :: json

fun categorize_call :: "json \<Rightarrow> json \<Rightarrow> exn + string" where
  \<comment> \<open>the classifier called on values that may not be strings: \<^verbatim>\<open>error.lower()\<close> is
      evaluated first, then \<^verbatim>\<open>test_name.lower()\<close>\<close>
  "categorize_call (JStr error) (JStr test_name) = Inr (categorize_bug_severity error test_name)"
| "categorize_call (JStr error) t = Inl (no_attribute t ''lower'')"
| "categorize_call e t = Inl (no_attribute e ''lower'')"

fun search_quoted :: "string \<Rightarrow> string option" where
  \<comment> \<open>\<^verbatim>\<open>re.search(r"'([^']+)'", s)\<close>: the leftmost quote that is followed by at least one
      character other than a quote and then a quote; the group is what lies between\<close>
  "search_quoted [] = None"
| "search_quoted (c # cs) =
     (if c = CHR 0x27 \<and> takeWhile (\<lambda>d. d \<noteq> CHR 0x27) cs \<noteq> [] \<and>
         dropWhile (\<lambda>d. d \<noteq> CHR 0x27) cs \<noteq> []
      then Some (takeWhile (\<lambda>d. d \<noteq> CHR 0x27) cs)
      else search_quoted cs)"

definition simple_bug_text :: "string \<Rightarrow> string \<Rightarrow> string \<Rightarrow> string \<Rightarrow> string \<Rightarrow> bug" where
  \<comment> \<open>the body of the loop of \<^verbatim>\<open>_create_simple_bugs\<close> once both values are strings\<close>
  "simple_bug_text test_url page_title test_name error sev =
     (let element_name = (case search_quoted test_name of Some g \<Rightarrow> g | None \<Rightarrow> ''a page element'');
          steps = JArr [JStr (''1. Visit '' @ test_url),
                        JStr (''2. Try to use the '' @ quoted element_name @ '' feature''),
                        JStr ''3. Observe the issue''];
          expected = JStr (''The '' @ quoted element_name @ '' should work correctly'')
      in
      if contains (lower error) ''timeout'' then
        \<lparr> bugId = FreshId ''bug_'',
          bug_title = take 255 (quoted test_name @ '' is taking too long to respond''),
          bug_description = take 800 (''When testing '' @ quoted test_name @ '' on '' @ page_title @
            '', the page took longer than expected (over 30 seconds). This might mean the feature is very slow for real users. Check if there are performance issues or if the page is loading correctly.''),
          severity = sev, steps_to_reproduce = steps, expected_result = expected,
          actual_result = JStr ''Page or element took too long to load (timeout)'',
          user_impact = JStr ''Users may experience slow loading times or give up waiting'' \<rparr>
      else if contains (lower error) ''not found'' \<or> contains (lower error) ''locator'' then
        \<lparr> bugId = FreshId ''bug_'',
          bug_title = take 255 (''Can't find '' @ quoted element_name @ '' on '' @ page_title),
          bug_description = take 800 (''The automated test couldn't find '' @ quoted element_name @
            '' on the page. This could mean: (1) The element was removed or renamed, (2) It's hidden from view, or (3) The page structure changed. Users might not be able to access this feature.''),
          severity = sev, steps_to_reproduce = steps, expected_result = expected,
          actual_result = JStr (quoted element_name @ '' was not found on the page''),
          user_impact =
            JStr ''Users may not be able to use this feature if it's missing or hard to find'' \<rparr>
      else
        \<lparr> bugId = FreshId ''bug_'',
          bug_title = take 255 (''Issue with '' @ quoted test_name @ '' on '' @ page_title),
          bug_description = take 800 (''The test '' @ quoted test_name @ '' failed on '' @ test_url @
            ''. Error: '' @ take 150 error @
            ''. This needs investigation to ensure the feature works correctly for users.''),
          severity = sev, steps_to_reproduce = steps, expected_result = expected,
          actual_result = JStr ''Test failed with an error'',
          user_impact = JStr ''Users may encounter errors when using this feature'' \<rparr>)"

definition simple_bug :: "lib \<Rightarrow> string \<Rightarrow> page_info \<Rightarrow> failure \<Rightarrow> exn + bug" where
  "simple_bug L test_url page failure =
     seq (categorize_call (f_error failure) (f_title failure)) (\<lambda>sev.
       Inr (simple_bug_text test_url (py_str L (page_title_or page ''the website''))
              (py_str L (f_title failure)) (py_str L (f_error failure)) sev))"

definition create_simple_bugs :: "lib \<Rightarrow> failure list \<Rightarrow> string \<Rightarrow> page_info \<Rightarrow> exn + bug list" where
  "create_simple_bugs L failures test_url page =
     traverse (simple_bug L test_url page) (take 5 failures)"

subsection \<open>The generative call\<close>

text \<open>
  The external model is an oracle: \<open>gen k prompt\<close> is what the \<open>k\<close>-th call of the run
  (\<^verbatim>\<open>model.generate_content(prompt)\<close> followed by \<^verbatim>\<open>response.text\<close>) gives on that
  prompt, an exception or a text. Functions that may call it take the number of calls made
  so far and return the new number. Building the client object makes no call and does not
  fail. The fixed instruction paragraphs of the prompts are abridged; the context part,
  whose construction can raise, is built as in the source.
\<close>

type_synonym generator = "nat \<Rightarrow> string \<Rightarrow> exn + string"

definition quoted_items :: "lib \<Rightarrow> json \<Rightarrow> exn + string" where
  \<comment> \<open>\<^verbatim>\<open>", ".join([f"'{b}'" for b in v[:5]])\<close>\<close>
  "quoted_items L v =
     seq (py_take 5 v) (\<lambda>part. seq (py_iter part) (\<lambda>items.
       Inr (join '', '' (map (\<lambda>b. quoted (py_str L b)) items))))"

definition element_line :: "lib \<Rightarrow> page_info \<Rightarrow> string \<Rightarrow> string \<Rightarrow> exn + string list" where
  \<comment> \<open>\<^verbatim>\<open>if page_info.get(key): context_parts.append(f"  Label: {...}")\<close>\<close>
  "element_line L page key label =
     (if truthy (page_get page key JNull)
      then seq (quoted_items L (page_get page key JNull)) (\<lambda>s. Inr [label @ s])
      else Inr [])"

definition strip_fences :: "string \<Rightarrow> string" where
  \<comment> \<open>the clean-up of a response that starts with a fence\<close>
  "strip_fences text =
     (if startswith text fence
      then join nl (filter (\<lambda>line. \<not> startswith (strip line) fence \<and> strip line \<noteq> ''json'')
                      (splitlines text))
      else text)"

definition as_list :: "json \<Rightarrow> json list" where
  \<comment> \<open>\<^verbatim>\<open>if not isinstance(v, list): v = [v]\<close>\<close>
  "as_list v = (case v of JArr xs \<Rightarrow> xs | _ \<Rightarrow> [v])"

definition bug_failure_lines :: "lib \<Rightarrow> nat \<times> failure \<Rightarrow> exn + string list" where
  "bug_failure_lines L p =
     seq (py_take 300 (f_error (snd p))) (\<lambda>e.
       Inr [str_nat (fst p) @ ''. Test: '' @ quoted (py_str L (f_title (snd p))),
            ''   Error: '' @ py_str L e,
            []])"

definition bug_prompt ::
  "lib \<Rightarrow> failure list \<Rightarrow> string \<Rightarrow> page_info \<Rightarrow> script_analysis \<Rightarrow> exn + string" where
  "bug_prompt L failures test_url page sa =
     seq (traverse (bug_failure_lines L) (List.enumerate 1 (take 5 failures))) (\<lambda>flines.
     seq (if page_present page
          then seq (element_line L page ''buttons'' ''  Buttons: '') (\<lambda>bs.
               seq (element_line L page ''links'' ''  Links: '') (\<lambda>ls.
                 Inr ([''PAGE ELEMENTS:''] @ bs @ ls @ [[]])))
          else Inr []) (\<lambda>plines.
       Inr (''You are explaining website bugs to NON-TECHNICAL business users (product managers, business owners).''
            @ nl @ nl @
            join nl ([''WEBSITE: '' @ test_url @ '' ('' @ py_str L (page_title_or page ''Unknown'') @ '')'',
                      [], ''FAILED TESTS:''] @ concat flines @ plines @
                     (if element_texts sa \<noteq> []
                      then [''WHAT WAS BEING TESTED:''] @
                           map (\<lambda>elem. ''  - '' @ quoted elem) (take 5 (element_texts sa)) @ [[]]
                      else []))
            @ nl @ nl @
            ''For each failed test, create a user-friendly bug report. Return ONLY the JSON array, no markdown.'')))"

definition valid_severities :: "string list" where
  "valid_severities = [''critical'', ''high'', ''medium'', ''low'']"

definition validate_bug :: "lib \<Rightarrow> string \<Rightarrow> failure \<Rightarrow> json \<Rightarrow> exn + bug" where
  \<comment> \<open>one round of the validation loop, for the candidate \<open>b\<close> and the failure of the same index\<close>
  "validate_bug L test_url failure b =
     (case b of
        JObj kvs \<Rightarrow>
          seq (py_lower (dict_get kvs ''severity'' (JStr ''high''))) (\<lambda>sev.
          seq (if sev \<in> set valid_severities then Inr sev
               else categorize_call (f_error failure) (f_title failure)) (\<lambda>sev'.
            Inr \<lparr> bugId = (case map_of kvs ''bugId'' of Some v \<Rightarrow> Given v | None \<Rightarrow> FreshId ''bug_''),
                  bug_title = take 255 (py_str L (dict_get kvs ''title'' (f_title failure))),
                  bug_description =
                    take 800 (py_str L (dict_get kvs ''description'' (JStr ''A test failed''))),
                  severity = sev',
                  steps_to_reproduce = dict_get kvs ''steps_to_reproduce''
                    (JArr [JStr (''1. Visit '' @ test_url),
                           JStr (''2. Run automated test: '' @ py_str L (f_title failure)),
                           JStr ''3. Test fails'']),
                  expected_result = dict_get kvs ''expected_result'' (JStr ''Test should pass''),
                  actual_result = dict_get kvs ''actual_result'' (JStr ''Test failed''),
                  user_impact = dict_get kvs ''user_impact''
                    (JStr ''Users may experience issues with this feature'') \<rparr>))
      | _ \<Rightarrow> Inl (no_attribute b ''get''))"

fun validate_bugs :: "lib \<Rightarrow> string \<Rightarrow> failure list \<Rightarrow> nat \<Rightarrow> json list \<Rightarrow> exn + bug list" where
  \<comment> \<open>\<^verbatim>\<open>for i, bug in enumerate(bugs[:5])\<close> with its \<^verbatim>\<open>break\<close> at \<open>i >= len(failures)\<close>\<close>
  "validate_bugs L test_url failures i [] = Inr []"
| "validate_bugs L test_url failures i (b # bs) =
     (if i \<ge> length failures then Inr []
      else seq (validate_bug L test_url (failures ! i) b) (\<lambda>v.
           seq (validate_bugs L test_url failures (Suc i) bs) (\<lambda>vs. Inr (v # vs))))"

definition generate_user_friendly_bugs ::
  "lib \<Rightarrow> generator \<Rightarrow> nat \<Rightarrow> failure list \<Rightarrow> string \<Rightarrow> page_info \<Rightarrow> script_analysis
     \<Rightarrow> (exn + bug list) \<times> nat" where
  "generate_user_friendly_bugs L gen n failures test_url page sa =
     (if failures = [] then (Inr [], n)
      else case bug_prompt L failures test_url page sa of
        Inl e \<Rightarrow> (create_simple_bugs L failures test_url page, n)
      | Inr prompt \<Rightarrow>
          (case gen n prompt of
             Inl e \<Rightarrow> (create_simple_bugs L failures test_url page, Suc n)
           | Inr response \<Rightarrow>
               (case json_loads L (strip_fences (strip response)) of
                  None \<Rightarrow> (create_simple_bugs L failures test_url page, Suc n)
                | Some parsed \<Rightarrow>
                    (case validate_bugs L test_url failures 0 (take 5 (as_list parsed)) of
                       Inl e \<Rightarrow> (create_simple_bugs L failures test_url page, Suc n)
                     | Inr validated \<Rightarrow> (Inr validated, Suc n)))))"

section \<open>Recommendations\<close>

record recommendation =
  recommendationId :: ident
  rec_title :: string
  rec_description :: string
  impact :: string
  category :: string
  other_fields :: "(string \<times> json) list"

definition valid_impacts :: "string list" where
  "valid_impacts = [''low'', ''medium'', ''high'']"

definition valid_categories :: "string list" where
  "valid_categories = [''performance'', ''security'', ''accessibility'', ''seo'', ''ux'']"

definition present_or :: "(string \<times> json) list \<Rightarrow> string \<Rightarrow> json \<Rightarrow> json" where
  \<comment> \<open>\<^verbatim>\<open>if k not in rec or not rec[k]: rec[k] = d\<close>, then \<^verbatim>\<open>rec[k]\<close>\<close>
  "present_or kvs k d = (case map_of kvs k of Some v \<Rightarrow> (if truthy v then v else d) | None \<Rightarrow> d)"

definition enum_field :: "(string \<times> json) list \<Rightarrow> string \<Rightarrow> string list \<Rightarrow> string \<Rightarrow> exn + string" where
  \<comment> \<open>\<^verbatim>\<open>if k not in rec or rec[k].lower() not in valid: rec[k] = d\<close>, then
      \<^verbatim>\<open>rec[k] = rec[k].lower()\<close>; the default \<open>d\<close> is in lower case\<close>
  "enum_field kvs k valid d =
     (case map_of kvs k of
        None \<Rightarrow> Inr d
      | Some v \<Rightarrow> seq (py_lower v) (\<lambda>l. Inr (if l \<in> set valid then l else d)))"

fun not_a_dict :: "json \<Rightarrow> exn" where
  \<comment> \<open>what \<^verbatim>\<open>"recommendationId" not in rec or not rec["recommendationId"]\<close> and the
      assignment after it raise when \<open>rec\<close> is not a dictionary\<close>
  "not_a_dict (JStr s) =
     (if contains s ''recommendationId''
      then TypeError (''string indices must be integers, not '' @ sq @ ''str'' @ sq)
      else TypeError (sq @ ''str'' @ sq @ '' object does not support item assignment''))"
| "not_a_dict (JArr xs) = TypeError ''list indices must be integers or slices, not str''"
| "not_a_dict v = TypeError (''argument of type '' @ sq @ type_name v @ sq @ '' is not iterable'')"

definition validate_recommendation :: "lib \<Rightarrow> json \<Rightarrow> exn + recommendation" where
  "validate_recommendation L r =
     (case r of
        JObj kvs \<Rightarrow>
          seq (enum_field kvs ''impact'' valid_impacts ''medium'') (\<lambda>imp.
          seq (enum_field kvs ''category'' valid_categories ''ux'') (\<lambda>cat.
            Inr \<lparr> recommendationId =
                    (case map_of kvs ''recommendationId'' of
                       Some v \<Rightarrow> (if truthy v then Given v else FreshId ''rec_'')
                     | None \<Rightarrow> FreshId ''rec_''),
                  rec_title = take 255 (py_str L (present_or kvs ''title'' (JStr ''Test Recommendation''))),
                  rec_description =
                    py_str L (present_or kvs ''description'' (JStr ''No description provided'')),
                  impact = imp,
                  category = cat,
                  other_fields = filter (\<lambda>kv. fst kv \<notin> set [''recommendationId'', ''title'',
                    ''description'', ''impact'', ''category'']) kvs \<rparr>))
      | _ \<Rightarrow> Inl (not_a_dict r))"

subsection \<open>The relevance check\<close>

definition has_url_ref :: "string \<Rightarrow> recommendation \<Rightarrow> bool" where
  "has_url_ref test_url r =
     (contains (lower (rec_description r)) (lower test_url) \<or>
      contains (lower (rec_title r)) (lower test_url))"

fun any_element_ref :: "string \<Rightarrow> string \<Rightarrow> json list \<Rightarrow> exn + bool" where
  \<comment> \<open>\<^verbatim>\<open>any(elem.lower() in desc_lower or elem.lower() in title_lower
           for elem in all_elements if elem and len(elem) > 3)\<close>, which stops at the first hit\<close>
  "any_element_ref desc_lower title_lower [] = Inr False"
| "any_element_ref desc_lower title_lower (elem # rest) =
     (if truthy elem then
        seq (py_len elem) (\<lambda>n.
          if n > 3 then
            seq (py_lower elem) (\<lambda>el.
              if contains desc_lower el \<or> contains title_lower el then Inr True
              else any_element_ref desc_lower title_lower rest)
          else any_element_ref desc_lower title_lower rest)
      else any_element_ref desc_lower title_lower rest)"

definition all_elements :: "page_info \<Rightarrow> script_analysis \<Rightarrow> exn + json list" where
  \<comment> \<open>\<^verbatim>\<open>page_info.get("headings", [])[:5] + page_info.get("buttons", [])[:5] +
           script_analysis.get("test_names", [])[:5]\<close>: the two slices are taken first; the
      sum with the list of test names exists only when both are lists\<close>
  "all_elements page sa =
     seq (py_take 5 (page_get page ''headings'' (JArr []))) (\<lambda>hs.
     seq (py_take 5 (page_get page ''buttons'' (JArr []))) (\<lambda>bs.
       case (hs, bs) of
         (JArr h, JArr b) \<Rightarrow> Inr (h @ b @ map JStr (take 5 (test_names sa)))
       | (JArr h, _) \<Rightarrow>
           Inl (TypeError (''can only concatenate list (not '' @ dq @ type_name bs @ dq @ '') to list''))
       | (_, JArr b) \<Rightarrow>
           Inl (TypeError (''can only concatenate str (not '' @ dq @ ''list'' @ dq @ '') to str''))
       | _ \<Rightarrow>
           Inl (TypeError (''can only concatenate str (not '' @ dq @ ''list'' @ dq @ '') to str''))))"

definition has_element_ref :: "page_info \<Rightarrow> script_analysis \<Rightarrow> recommendation \<Rightarrow> exn + bool" where
  "has_element_ref page sa r =
     (if page_present page
      then seq (all_elements page sa)
             (any_element_ref (lower (rec_description r)) (lower (rec_title r)))
      else Inr False)"

fun review_recommendations ::
  "lib \<Rightarrow> failure list \<Rightarrow> string \<Rightarrow> page_info \<Rightarrow> script_analysis \<Rightarrow> json list
     \<Rightarrow> exn + recommendation list" where
  \<comment> \<open>the loop over the candidates: validate, check, accept or reject\<close>
  "review_recommendations L failures test_url page sa [] = Inr []"
| "review_recommendations L failures test_url page sa (r # rs) =
     seq (validate_recommendation L r) (\<lambda>v.
     seq (has_element_ref page sa v) (\<lambda>element_ref.
     seq (review_recommendations L failures test_url page sa rs) (\<lambda>vs.
       Inr (if failures \<noteq> [] \<or> has_url_ref test_url v \<or> element_ref then v # vs else vs))))"

subsection \<open>The deterministic fallback\<close>

fun first_match :: "string \<Rightarrow> json list \<Rightarrow> exn + json option" where
  \<comment> \<open>\<^verbatim>\<open>for heading in headings: if heading.lower() in tested_lower or tested_lower in
           heading.lower(): ...; break\<close>\<close>
  "first_match tested_lower [] = Inr None"
| "first_match tested_lower (h # hs) =
     seq (py_lower h) (\<lambda>hl.
       if contains tested_lower hl \<or> contains hl tested_lower then Inr (Some h)
       else first_match tested_lower hs)"

definition matched_elements :: "lib \<Rightarrow> json list \<Rightarrow> json list \<Rightarrow> string \<Rightarrow> exn + string list" where
  \<comment> \<open>one round of \<^verbatim>\<open>for tested_text in element_texts[:5]\<close>\<close>
  "matched_elements L headings buttons tested_text =
     seq (first_match (lower tested_text) headings) (\<lambda>mh.
     seq (first_match (lower tested_text) buttons) (\<lambda>mb.
       Inr ((case mh of Some h \<Rightarrow> [''the '' @ quoted (py_str L h) @ '' heading''] | None \<Rightarrow> []) @
            (case mb of Some b \<Rightarrow> [''the '' @ quoted (py_str L b) @ '' button''] | None \<Rightarrow> []))))"

definition untested_button :: "lib \<Rightarrow> string \<Rightarrow> json \<Rightarrow> exn + string list" where
  \<comment> \<open>\<^verbatim>\<open>if button and button.lower() not in " ".join(tested_texts_lower): ...\<close>\<close>
  "untested_button L tested b =
     (if truthy b
      then seq (py_lower b) (\<lambda>bl. Inr (if contains tested bl then [] else [quoted (py_str L b)]))
      else Inr [])"

definition page_elements :: "lib \<Rightarrow> page_info \<Rightarrow> script_analysis \<Rightarrow> exn + string list \<times> string list" where
  \<comment> \<open>the lists \<^verbatim>\<open>actual_elements\<close> and \<^verbatim>\<open>untested_elements\<close> of the fallback\<close>
  "page_elements L page sa =
     (if page_present page then
        seq (py_take 3 (page_get page ''headings'' (JArr []))) (\<lambda>hs.
        seq (py_take 3 (page_get page ''buttons'' (JArr []))) (\<lambda>bs.
        seq (py_iter hs) (\<lambda>headings.
        seq (py_iter bs) (\<lambda>buttons.
        seq (traverse (matched_elements L headings buttons) (take 5 (element_texts sa))) (\<lambda>ms.
        seq (py_take 10 (page_get page ''buttons'' (JArr []))) (\<lambda>ab.
        seq (py_iter ab) (\<lambda>all_buttons.
        seq (traverse (untested_button L (join '' '' (map lower (element_texts sa)))) all_buttons)
          (\<lambda>us.
            Inr (if concat ms \<noteq> [] then concat ms
                 else take 3 (map (\<lambda>h. ''the '' @ quoted (py_str L h) @ '' heading'')
                                (filter truthy headings) @
                              map (\<lambda>b. ''the '' @ quoted (py_str L b) @ '' button'')
                                (filter truthy buttons)),
                 concat us)))))))))
      else Inr ([], []))"

definition create_user_friendly_fallback ::
  "lib \<Rightarrow> failure list \<Rightarrow> string \<Rightarrow> page_info \<Rightarrow> script_analysis \<Rightarrow> exn + recommendation" where
  "create_user_friendly_fallback L failures test_url page sa =
     (let page_title = page_title_or page [];
          page_name = (if truthy page_title then py_str L page_title else test_url)
      in
      case failures of
        first_failure # _ \<Rightarrow>
          seq (py_take 150 (f_error first_failure)) (\<lambda>error.
            Inr \<lparr> recommendationId = FreshId ''rec_'',
                  rec_title = ''Fix an issue with '' @ quoted (py_str L (f_title first_failure)) @
                    '' on your website'',
                  rec_description = ''One of our automated tests ('' @
                    quoted (py_str L (f_title first_failure)) @ '') found an issue on '' @ page_name @
                    ''. The problem: '' @ py_str L error @
                    ''. We recommend having a developer review this to ensure all features work properly for your visitors.'',
                  impact = ''high'', category = ''ux'', other_fields = [] \<rparr>)
      | [] \<Rightarrow>
          seq (page_elements L page sa) (\<lambda>(actual_elements, untested_elements).
            if untested_elements \<noteq> [] then
              Inr \<lparr> recommendationId = FreshId ''rec_'',
                    rec_title = ''Test additional buttons on '' @ page_name,
                    rec_description = ''Good news! All our tests passed on '' @ test_url @
                      ''. We checked '' @
                      (if actual_elements \<noteq> [] then join '', '' (take 2 actual_elements)
                       else ''several elements'') @
                      '' and they work great. However, we noticed these buttons haven't been tested yet: '' @
                      join '', '' (take 3 untested_elements) @
                      ''. Adding tests for these will ensure all clickable elements work correctly for your users.'',
                    impact = ''medium'', category = ''ux'', other_fields = [] \<rparr>
            else if actual_elements \<noteq> [] then
              Inr \<lparr> recommendationId = FreshId ''rec_'',
                    rec_title = ''Expand testing for '' @ page_name,
                    rec_description = ''All tests passed on '' @ test_url @
                      ''! We successfully verified '' @
                      (if length actual_elements \<le> 3 then join '', '' (take 3 actual_elements)
                       else actual_elements ! 0 @ '', '' @ actual_elements ! 1 @ '', and others'') @
                      ''. To make your website even more reliable, consider testing these scenarios: (1) What happens when someone tries to use '' @
                      actual_elements ! 0 @
                      '' with invalid information, (2) How it looks and works on mobile phones, (3) Whether keyboard users can navigate easily. This helps ensure a great experience for all your visitors.'',
                    impact = ''low'', category = ''accessibility'', other_fields = [] \<rparr>
            else
              Inr \<lparr> recommendationId = FreshId ''rec_'',
                    rec_title = ''Continue improving '' @ page_name,
                    rec_description = ''Your website ('' @ page_name @
                      '') passed our initial automated tests. To maintain high quality, we recommend regularly testing key features like forms, buttons, and user workflows. This helps catch issues before your customers do and ensures a smooth experience for everyone visiting '' @
                      test_url @ ''.'',
                    impact = ''medium'', category = ''ux'', other_fields = [] \<rparr>))"

subsection \<open>The prompt and the call\<close>

definition report_specs :: "json \<Rightarrow> exn + json list" where
  \<comment> \<open>\<^verbatim>\<open>for suite in test_results.get("suites", []) for spec in suite.get("specs", [])\<close>\<close>
  "report_specs results =
     seq (py_get results ''suites'' (JArr [])) (\<lambda>ss. seq (py_iter ss) (\<lambda>suites.
     seq (traverse (\<lambda>suite. seq (py_get suite ''specs'' (JArr [])) py_iter) suites) (\<lambda>sp.
       Inr (concat sp))))"

definition total_tests :: "json \<Rightarrow> exn + nat" where
  "total_tests results =
     seq (report_specs results) (\<lambda>specs.
     seq (traverse (\<lambda>spec. seq (py_get spec ''tests'' (JArr [])) py_len) specs) (\<lambda>ns.
       Inr (sum_list ns)))"

definition passed_tests :: "json \<Rightarrow> exn + nat" where
  "passed_tests results =
     seq (report_specs results) (\<lambda>specs.
     seq (traverse (\<lambda>spec. seq (py_get spec ''tests'' (JArr [])) py_iter) specs) (\<lambda>ts.
     seq (traverse (\<lambda>test. seq (py_get test ''results'' (JArr [])) py_iter) (concat ts)) (\<lambda>rs.
     seq (traverse (\<lambda>r. py_get r ''status'' JNull) (concat rs)) (\<lambda>statuses.
       Inr (length (filter (\<lambda>st. st = JStr ''passed'') statuses))))))"

definition rec_failure_lines :: "lib \<Rightarrow> nat \<times> failure \<Rightarrow> exn + string list" where
  "rec_failure_lines L p =
     seq (py_take 150 (f_error (snd p))) (\<lambda>e.
       Inr [''  '' @ str_nat (fst p) @ ''. '' @ py_str L (f_title (snd p)),
            ''     Problem: '' @ py_str L e])"

definition rec_prompt ::
  "lib \<Rightarrow> failure list \<Rightarrow> string \<Rightarrow> json \<Rightarrow> page_info \<Rightarrow> script_analysis \<Rightarrow> exn + string" where
  "rec_prompt L failures test_url test_results page sa =
     seq (if page_present page
          then seq (element_line L page ''headings'' ''  Headings: '') (\<lambda>hs.
               seq (element_line L page ''buttons'' ''  Buttons: '') (\<lambda>bs.
               seq (element_line L page ''links'' ''  Links: '') (\<lambda>ls.
                 Inr ([''PAGE ELEMENTS:''] @ hs @ bs @ ls @ [[]]))))
          else Inr []) (\<lambda>plines.
     seq (if truthy test_results
          then seq (total_tests test_results) (\<lambda>total.
               seq (passed_tests test_results) (\<lambda>passed.
                 Inr [''TESTS: '' @ str_nat passed @ '' passed, '' @
                      str_int (int total - int passed) @ '' failed'', []]))
          else Inr []) (\<lambda>tlines.
     seq (if failures \<noteq> []
          then seq (traverse (rec_failure_lines L) (List.enumerate 1 (take 3 failures))) (\<lambda>fl.
                 Inr ([''ISSUES FOUND:''] @ concat fl @ [[]]))
          else Inr []) (\<lambda>flines.
       Inr ((if failures = []
             then ''You are a website quality advisor speaking to NON-TECHNICAL business users.''
             else ''You are a website quality advisor explaining problems to NON-TECHNICAL business users.'')
            @ nl @ nl @
            join nl ([''WEBSITE: '' @ test_url,
                      ''PAGE: '' @ py_str L (page_title_or page ''Unknown''), []] @
                     plines @ tlines @
                     (if test_names sa \<noteq> []
                      then [''WHAT WAS TESTED:''] @
                           map (\<lambda>name. ''  - '' @ name) (take 5 (test_names sa)) @ [[]]
                      else []) @
                     (if element_texts sa \<noteq> []
                      then [''ELEMENTS CHECKED:''] @
                           map (\<lambda>t. ''  - '' @ quoted t) (take 6 (element_texts sa)) @ [[]]
                      else []) @
                     flines)
            @ nl @ nl @
            (if failures = []
             then ''All automated tests PASSED. Provide 2-3 actionable recommendations to improve this website. Return ONLY the JSON array.''
             else ''Some automated tests FAILED. Provide 2-3 recommendations to prevent these issues. Return ONLY the JSON array.'')))))"

definition fallback_list ::
  "lib \<Rightarrow> failure list \<Rightarrow> string \<Rightarrow> page_info \<Rightarrow> script_analysis \<Rightarrow> exn + recommendation list" where
  \<comment> \<open>\<^verbatim>\<open>[PlaywrightTestExecutor._create_user_friendly_fallback(...)]\<close>\<close>
  "fallback_list L failures test_url page sa =
     seq (create_user_friendly_fallback L failures test_url page sa) (\<lambda>fb. Inr [fb])"

definition recommendations_try ::
  "lib \<Rightarrow> generator \<Rightarrow> nat \<Rightarrow> failure list \<Rightarrow> string \<Rightarrow> json \<Rightarrow> string \<Rightarrow> page_info
     \<Rightarrow> (exn + recommendation list) \<times> nat" where
  \<comment> \<open>the body of the outer \<^verbatim>\<open>try\<close>, the handler of \<^verbatim>\<open>json.JSONDecodeError\<close> included\<close>
  "recommendations_try L gen n failures test_url test_results script_content page =
     (let sa = parse_test_script L script_content in
      case rec_prompt L failures test_url test_results page sa of
        Inl e \<Rightarrow> (Inl e, n)
      | Inr prompt \<Rightarrow>
          (case gen n prompt of
             Inl e \<Rightarrow> (Inl e, Suc n)
           | Inr response \<Rightarrow>
               (case json_loads L (strip_fences (strip response)) of
                  None \<Rightarrow> (fallback_list L failures test_url page sa, Suc n)
                | Some parsed \<Rightarrow>
                    (seq (review_recommendations L failures test_url page sa
                            (take 5 (as_list parsed))) (\<lambda>validated.
                       if validated = [] then fallback_list L failures test_url page sa
                       else Inr validated),
                     Suc n))))"

definition ask_gemini_for_recommendations ::
  "lib \<Rightarrow> generator \<Rightarrow> nat \<Rightarrow> failure list \<Rightarrow> string \<Rightarrow> json \<Rightarrow> string \<Rightarrow> page_info
     \<Rightarrow> (exn + recommendation list) \<times> nat" where
  \<comment> \<open>an exception of the body is caught by \<^verbatim>\<open>except Exception\<close>, whose handler returns
      the fallback; an exception of the handler itself leaves the function\<close>
  "ask_gemini_for_recommendations L gen n failures test_url test_results script_content page =
     (case recommendations_try L gen n failures test_url test_results script_content page of
        (Inr recs, n') \<Rightarrow> (Inr recs, n')
      | (Inl e, n') \<Rightarrow>
          (fallback_list L failures test_url page (parse_test_script L script_content), n'))"

section \<open>The run\<close>

text \<open>
  What a run meets outside the program is a record: the oracle of the generative calls,
  the two scratch paths the run is given (a random file name in the temporary directory and
  the directory made by \<^verbatim>\<open>mkdtemp\<close>), whether opening or writing the script file
  fails, what \<^verbatim>\<open>subprocess.run\<close> does (it raises, \<open>TimeoutExpired\<close> after the 300 second
  ceiling, or gives the runner's output and diagnostic streams), the wall-clock milliseconds
  the runner took, the outcome of listing, dating and reading the screenshot files, and
  whether removing the file or the directory fails. Calls that no handler of the program
  guards (finding the temporary directory, \<^verbatim>\<open>mkdtemp\<close>, drawing random names) are
  taken to succeed. The file system is the set of paths that exist.
\<close>

record env =
  gen :: generator
  tmp_file :: string
  screenshot_dir :: string
  open_error :: "exn option"
  write_error :: "exn option"
  proc :: "exn + string \<times> string"
  elapsed_ms :: int
  listdir :: "exn + string list"
  getmtime :: "string \<Rightarrow> exn + int"
  read_file :: "string \<Rightarrow> exn + string"
  remove_error :: "exn option"
  rmtree_error :: "exn option"

record response =
  success :: bool
  status :: string
  logs :: "string list"
  bugs :: "bug list"
  recommendations :: "recommendation list"
  duration :: string
  browser :: "string option"
  screenshots :: "(string \<times> string) list"
  results :: "json option"

definition format_duration :: "lib \<Rightarrow> int \<Rightarrow> string" where
  \<comment> \<open>\<^verbatim>\<open>sec = ms / 1000\<close>; below a minute the text is \<^verbatim>\<open>f"{sec:.1f}s"\<close>, from a minute on
      the whole minutes and seconds, which the integers give exactly\<close>
  "format_duration L ms =
     (if ms < 60000 then format_tenths L ms @ ''s''
      else str_int (ms div 60000) @ ''m '' @ str_int ((ms div 1000) mod 60) @ ''s'')"

definition dict_fromkeys :: "string list \<Rightarrow> string list" where
  \<comment> \<open>\<^verbatim>\<open>list(dict.fromkeys(logs))\<close>: a key is entered when first met\<close>
  "dict_fromkeys xs = fold (\<lambda>x seen. if x \<in> set seen then seen else seen @ [x]) xs []"

subsection \<open>Walking the report\<close>

text \<open>
  The four nested loops append to \<^verbatim>\<open>logs\<close> and \<^verbatim>\<open>failures\<close> as they go; when a
  value of the report has the wrong shape the walk raises, and the log lines written so far
  stay in \<^verbatim>\<open>logs\<close>, which the handler of the run reads.
\<close>

type_synonym walk = "string list \<times> failure list"

definition guard :: "walk \<Rightarrow> exn + 'a \<Rightarrow> ('a \<Rightarrow> exn \<times> walk + walk) \<Rightarrow> exn \<times> walk + walk" where
  "guard st m k = (case m of Inl e \<Rightarrow> Inl (e, st) | Inr v \<Rightarrow> k v)"

fun for_each :: "('a \<Rightarrow> walk \<Rightarrow> exn \<times> walk + walk) \<Rightarrow> 'a list \<Rightarrow> walk \<Rightarrow> exn \<times> walk + walk" where
  "for_each body [] st = Inr st"
| "for_each body (x # xs) st =
     (case body x st of Inl err \<Rightarrow> Inl err | Inr st' \<Rightarrow> for_each body xs st')"

definition failure_message :: "lib \<Rightarrow> json \<Rightarrow> json" where
  \<comment> \<open>\<^verbatim>\<open>error_obj.get("message", "Unknown error") if isinstance(error_obj, dict)
           else str(error_obj)\<close>\<close>
  "failure_message L error_obj =
     (case error_obj of
        JObj kvs \<Rightarrow> dict_get kvs ''message'' (JStr ''Unknown error'')
      | _ \<Rightarrow> JStr (py_str L error_obj))"

definition on_result :: "lib \<Rightarrow> json \<Rightarrow> json \<Rightarrow> walk \<Rightarrow> exn \<times> walk + walk" where
  "on_result L test r st =
     guard st (py_get test ''title'' (JStr ''Unnamed'')) (\<lambda>title.
     guard st (py_get r ''status'' (JStr ''unknown'')) (\<lambda>st_val.
       let logged = (fst st @ [''> '' @ py_str L title @ '' - '' @ py_str L st_val], snd st) in
       if st_val = JStr ''failed'' \<or> st_val = JStr ''timedOut'' then
         guard logged (py_get r ''error'' (JObj [])) (\<lambda>error_obj.
           Inr (fst logged,
                snd logged @ [\<lparr> f_title = title, f_error = failure_message L error_obj \<rparr>]))
       else Inr logged))"

definition on_test :: "lib \<Rightarrow> json \<Rightarrow> walk \<Rightarrow> exn \<times> walk + walk" where
  "on_test L test st =
     guard st (py_get test ''results'' (JArr [])) (\<lambda>rs.
     guard st (py_iter rs) (\<lambda>items. for_each (on_result L test) items st))"

definition on_spec :: "lib \<Rightarrow> json \<Rightarrow> walk \<Rightarrow> exn \<times> walk + walk" where
  "on_spec L spec st =
     guard st (py_get spec ''tests'' (JArr [])) (\<lambda>ts.
     guard st (py_iter ts) (\<lambda>items. for_each (on_test L) items st))"

definition on_suite :: "lib \<Rightarrow> json \<Rightarrow> walk \<Rightarrow> exn \<times> walk + walk" where
  "on_suite L suite st =
     guard st (py_get suite ''specs'' (JArr [])) (\<lambda>sp.
     guard st (py_iter sp) (\<lambda>items. for_each (on_spec L) items st))"

definition walk_report :: "lib \<Rightarrow> json \<Rightarrow> walk \<Rightarrow> exn \<times> walk + walk" where
  "walk_report L result st =
     guard st (py_get result ''suites'' (JArr [])) (\<lambda>ss.
     guard st (py_iter ss) (\<lambda>items. for_each (on_suite L) items st))"

subsection \<open>Screenshots\<close>

fun read_screenshots ::
  "lib \<Rightarrow> env \<Rightarrow> string list \<Rightarrow> (string \<times> string) list \<Rightarrow> (string \<times> string) list \<times> string list" where
  \<comment> \<open>the loop over the sorted file names; the second component is the log line it ends with\<close>
  "read_screenshots L E [] acc =
     (acc, [''Collected '' @ str_nat (length acc) @ '' screenshots.''])"
| "read_screenshots L E (fname # rest) acc =
     (case read_file E (screenshot_dir E @ ''/'' @ fname) of
        Inl e \<Rightarrow> (acc, [''Screenshot collection error: '' @ exn_str e])
      | Inr bytes \<Rightarrow> read_screenshots L E rest (acc @ [(fname, b64encode L bytes)]))"

definition collect_screenshots :: "lib \<Rightarrow> env \<Rightarrow> (string \<times> string) list \<times> string list" where
  \<comment> \<open>modification times are compared only, so they are integers here; Python's sort is
      stable, as \<open>sort_key\<close> is\<close>
  "collect_screenshots L E =
     (case listdir E of
        Inl e \<Rightarrow> ([], [''Screenshot collection error: '' @ exn_str e])
      | Inr names \<Rightarrow>
          (case traverse (\<lambda>f. seq (getmtime E (screenshot_dir E @ ''/'' @ f)) (\<lambda>t. Inr (t, f)))
                  (filter (\<lambda>f. endswith f ''.png'') names) of
             Inl e \<Rightarrow> ([], [''Screenshot collection error: '' @ exn_str e])
           | Inr dated \<Rightarrow> read_screenshots L E (map snd (sort_key fst dated)) []))"

subsection \<open>The body of the try block and its handlers\<close>

record locals =
  l_logs :: "string list"
  l_duration :: string
  l_calls :: nat

definition command_line :: "env \<Rightarrow> string" where
  "command_line E =
     ''npx playwright test '' @ dq @ tmp_file E @ dq @ '' --reporter=json --workers=1''"

definition stderr_lines :: "string \<Rightarrow> string list" where
  "stderr_lines err =
     (if err \<noteq> [] \<and> take 6 (splitlines err) \<noteq> [] then ''STDERR:'' # take 6 (splitlines err)
      else [])"

definition after_run ::
  "lib \<Rightarrow> env \<Rightarrow> string \<Rightarrow> string \<Rightarrow> page_info \<Rightarrow> string list \<Rightarrow> string \<Rightarrow> string
     \<Rightarrow> exn \<times> locals + response" where
  \<comment> \<open>from the return of \<^verbatim>\<open>subprocess.run\<close> to the \<^verbatim>\<open>return\<close> of the try block\<close>
  "after_run L E script test_url page logs0 out err =
     (let dur = format_duration L (elapsed_ms E);
          logs1 = logs0 @ stderr_lines err;
          result = extract_json L out
      in
      case (if truthy result then walk_report L result (logs1, [])
            else Inr (logs1 @ [''Could not parse Playwright JSON output.'', take 800 out], [])) of
        Inl (e, st) \<Rightarrow> Inl (e, \<lparr> l_logs = fst st, l_duration = dur, l_calls = 0 \<rparr>)
      | Inr (logs2, failures) \<Rightarrow>
          (let shots = collect_screenshots L E;
               logs3 = logs2 @ snd shots;
               sa = parse_test_script L script
           in
           case generate_user_friendly_bugs L (gen E) 0 failures test_url page sa of
             (Inl e, n) \<Rightarrow> Inl (e, \<lparr> l_logs = logs3, l_duration = dur, l_calls = n \<rparr>)
           | (Inr bs, n) \<Rightarrow>
               (case ask_gemini_for_recommendations L (gen E) n failures test_url result script page of
                  (Inl e, n') \<Rightarrow> Inl (e, \<lparr> l_logs = logs3, l_duration = dur, l_calls = n' \<rparr>)
                | (Inr rs, n') \<Rightarrow>
                    Inr \<lparr> success = True,
                          status = (if failures \<noteq> [] then ''failed'' else ''passed''),
                          logs = dict_fromkeys (logs3 @
                            [''Generated '' @ str_nat (length bs) @ '' bug reports and '' @
                               str_nat (length rs) @ '' recommendations.'',
                             ''Test execution complete.'']),
                          bugs = bs,
                          recommendations = rs,
                          duration = dur,
                          browser = Some ''chromium'',
                          screenshots = fst shots,
                          results = Some result \<rparr>)))"

definition try_body ::
  "lib \<Rightarrow> env \<Rightarrow> string \<Rightarrow> string \<Rightarrow> page_info \<Rightarrow> exn \<times> locals + response" where
  "try_body L E script test_url page =
     (let logs0 = [''Screenshot dir: '' @ screenshot_dir E];
          start = \<lparr> l_logs = logs0, l_duration = ''0s'', l_calls = 0 \<rparr>
      in
      case open_error E of
        Some e \<Rightarrow> Inl (e, start)
      | None \<Rightarrow>
          (case write_error E of
             Some e \<Rightarrow> Inl (e, start)
           | None \<Rightarrow>
               (let logs1 = logs0 @ [''Saved test file: '' @ tmp_file E,
                                     ''Executing: '' @ command_line E]
                in
                case proc E of
                  Inl e \<Rightarrow> Inl (e, start \<lparr> l_logs := logs1 \<rparr>)
                | Inr (out, err) \<Rightarrow> after_run L E script test_url page logs1 out err)))"

definition timeout_bug :: "string \<Rightarrow> bug" where
  "timeout_bug test_url =
     \<lparr> bugId = FreshId ''bug_'',
       bug_title = ''Website is taking too long to respond'',
       bug_description = ''The automated tests couldn't complete because your website took longer than 5 minutes to respond. This usually means: (1) The server is very slow, (2) The page has heavy content that takes forever to load, or (3) There's a technical issue preventing the page from loading. Impact: Users will likely experience very slow loading times or the page may not load at all. Fix: Check server performance and page load speed.'',
       severity = ''critical'',
       steps_to_reproduce = JArr [JStr (''1. Visit '' @ test_url), JStr ''2. Wait for page to load'',
                                  JStr ''3. Page takes over 5 minutes or doesn't load''],
       expected_result = JStr ''Page should load in under 3-5 seconds'',
       actual_result = JStr ''Page took over 5 minutes (test timeout)'',
       user_impact = JStr ''Users cannot access your website due to extreme slowness'' \<rparr>"

definition error_bug :: "exn \<Rightarrow> bug" where
  "error_bug e =
     \<lparr> bugId = FreshId ''bug_'',
       bug_title = ''Automated testing encountered a technical issue'',
       bug_description = ''The automated testing system ran into an unexpected problem: '' @
         take 200 (exn_str e) @
         ''. This might be a temporary issue with the testing setup rather than your website. Try running the test again. If the problem persists, contact support.'',
       severity = ''medium'',
       steps_to_reproduce = JArr [JStr ''1. Run automated test'', JStr ''2. System encounters error'',
                                  JStr ''3. Test cannot complete''],
       expected_result = JStr ''Tests should run successfully'',
       actual_result = JStr ''Testing system error'',
       user_impact = JStr ''Unable to verify website quality automatically'' \<rparr>"

definition on_timeout ::
  "lib \<Rightarrow> env \<Rightarrow> string \<Rightarrow> string \<Rightarrow> page_info \<Rightarrow> locals \<Rightarrow> exn + response" where
  \<comment> \<open>\<^verbatim>\<open>except subprocess.TimeoutExpired\<close>\<close>
  "on_timeout L E script test_url page st =
     seq (fst (ask_gemini_for_recommendations L (gen E) (l_calls st)
                 [\<lparr> f_title = JStr ''Test Timeout'', f_error = JStr ''Execution exceeded 300s limit'' \<rparr>]
                 test_url JNull script page)) (\<lambda>recs.
       Inr \<lparr> success = False, status = ''timeout'',
             logs = l_logs st @ [''Test execution timeout (300s limit)''],
             bugs = [timeout_bug test_url],
             recommendations = recs,
             duration = l_duration st,
             browser = None,
             screenshots = [],
             results = None \<rparr>)"

definition on_error ::
  "lib \<Rightarrow> env \<Rightarrow> string \<Rightarrow> string \<Rightarrow> page_info \<Rightarrow> exn \<Rightarrow> locals \<Rightarrow> exn + response" where
  \<comment> \<open>\<^verbatim>\<open>except Exception as e\<close>\<close>
  "on_error L E script test_url page e st =
     seq (fst (ask_gemini_for_recommendations L (gen E) (l_calls st)
                 [\<lparr> f_title = JStr ''Execution Error'', f_error = JStr (exn_str e) \<rparr>]
                 test_url JNull script page)) (\<lambda>recs.
       Inr \<lparr> success = False, status = ''error'',
             logs = l_logs st @ [''Unexpected error: '' @ exn_str e],
             bugs = [error_bug e],
             recommendations = recs,
             duration = l_duration st,
             browser = None,
             screenshots = [],
             results = None \<rparr>)"

definition cleanup :: "env \<Rightarrow> string set \<Rightarrow> string set" where
  \<comment> \<open>the \<^verbatim>\<open>finally\<close> block: an exception of a removal is caught, and ends the block\<close>
  "cleanup E fs =
     (let remove_dir = (\<lambda>fs'. if screenshot_dir E \<in> fs'
                               then (case rmtree_error E of
                                       Some e \<Rightarrow> fs'
                                     | None \<Rightarrow> fs' - {screenshot_dir E})
                               else fs')
      in
      if tmp_file E \<in> fs
      then (case remove_error E of Some e \<Rightarrow> fs | None \<Rightarrow> remove_dir (fs - {tmp_file E}))
      else remove_dir fs)"

definition run_script ::
  "lib \<Rightarrow> env \<Rightarrow> string set \<Rightarrow> string \<Rightarrow> string \<Rightarrow> page_info \<Rightarrow> (exn + response) \<times> string set" where
  \<comment> \<open>the result of the call, an exception that reaches the caller or the response, and the
      file system it leaves\<close>
  "run_script L E fs script_content test_url page =
     (let script = clean_script script_content;
          fs1 = insert (screenshot_dir E) fs;
          fs2 = (if open_error E = None then insert (tmp_file E) fs1 else fs1)
      in
      (case try_body L E script test_url page of
         Inr resp \<Rightarrow> Inr resp
       | Inl (TimeoutExpired m, st) \<Rightarrow> on_timeout L E script test_url page st
       | Inl (e, st) \<Rightarrow> on_error L E script test_url page e st,
       cleanup E fs2))"

section \<open>Definitions used in the statements\<close>

subsection \<open>A fenced script\<close>

text \<open>
  A script as the generative model tends to return it: a fenced block with a language tag,
  whose one line of code is indented.
\<close>

definition fenced_example :: string where
  "fenced_example = fence @ ''js'' @ nl @ ''  await page.goto(url);'' @ nl @ fence"

subsection \<open>The structured report, read as the specification describes it\<close>

text \<open>
  A structured report is a dictionary whose \<^verbatim>\<open>suites\<close> are dictionaries with
  \<^verbatim>\<open>specs\<close>, whose \<^verbatim>\<open>tests\<close> have \<^verbatim>\<open>results\<close>; each level is a list of
  dictionaries, or is absent. The results of a report are its (test, result) pairs in
  document order. A result fails when its status is \<^verbatim>\<open>failed\<close> or \<^verbatim>\<open>timedOut\<close>;
  the failure record has the title of the test and the message of the result's error: the
  \<^verbatim>\<open>message\<close> field when the error is a dictionary, the text of the error otherwise.
\<close>

fun is_obj :: "json \<Rightarrow> bool" where
  "is_obj (JObj kvs) = True"
| "is_obj v = False"

fun items_at :: "string \<Rightarrow> json \<Rightarrow> json list" where
  "items_at k (JObj kvs) = (case map_of kvs k of Some (JArr xs) \<Rightarrow> xs | _ \<Rightarrow> [])"
| "items_at k v = []"

fun list_of_objects :: "string \<Rightarrow> json \<Rightarrow> bool" where
  "list_of_objects k (JObj kvs) =
     (case map_of kvs k of None \<Rightarrow> True | Some (JArr xs) \<Rightarrow> list_all is_obj xs | Some v \<Rightarrow> False)"
| "list_of_objects k v = False"

definition well_formed_report :: "json \<Rightarrow> bool" where
  "well_formed_report rep =
     (list_of_objects ''suites'' rep \<and>
      list_all (\<lambda>suite. list_of_objects ''specs'' suite \<and>
        list_all (\<lambda>spec. list_of_objects ''tests'' spec \<and>
          list_all (\<lambda>test. list_of_objects ''results'' test) (items_at ''tests'' spec))
          (items_at ''specs'' suite))
        (items_at ''suites'' rep))"

definition test_results :: "json \<Rightarrow> (json \<times> json) list" where
  "test_results test = map (\<lambda>r. (test, r)) (items_at ''results'' test)"

definition spec_results :: "json \<Rightarrow> (json \<times> json) list" where
  "spec_results spec = concat (map test_results (items_at ''tests'' spec))"

definition suite_results :: "json \<Rightarrow> (json \<times> json) list" where
  "suite_results suite = concat (map spec_results (items_at ''specs'' suite))"

definition report_results :: "json \<Rightarrow> (json \<times> json) list" where
  "report_results rep = concat (map suite_results (items_at ''suites'' rep))"

fun field_or :: "json \<Rightarrow> string \<Rightarrow> json \<Rightarrow> json" where
  "field_or (JObj kvs) k d = (case map_of kvs k of Some v \<Rightarrow> v | None \<Rightarrow> d)"
| "field_or v k d = d"

definition failing :: "json \<times> json \<Rightarrow> bool" where
  "failing p = (field_or (snd p) ''status'' (JStr ''unknown'') \<in> {JStr ''failed'', JStr ''timedOut''})"

definition title_of :: "json \<times> json \<Rightarrow> json" where
  "title_of p = field_or (fst p) ''title'' (JStr ''Unnamed'')"

definition message_of :: "lib \<Rightarrow> json \<times> json \<Rightarrow> json" where
  "message_of L p =
     (case field_or (snd p) ''error'' (JObj []) of
        JObj e \<Rightarrow> field_or (JObj e) ''message'' (JStr ''Unknown error'')
      | other \<Rightarrow> JStr (py_str L other))"

definition report_failures :: "lib \<Rightarrow> (json \<times> json) list \<Rightarrow> failure list" where
  "report_failures L ps =
     map (\<lambda>p. \<lparr> f_title = title_of p, f_error = message_of L p \<rparr>) (filter failing ps)"

definition report_log_lines :: "lib \<Rightarrow> (json \<times> json) list \<Rightarrow> string list" where
  "report_log_lines L ps =
     map (\<lambda>p. ''> '' @ py_str L (title_of p) @ '' - '' @
               py_str L (field_or (snd p) ''status'' (JStr ''unknown''))) ps"

subsection \<open>A concrete library and a concrete report\<close>

text \<open>
  For runs on concrete inputs the library parameters are fixed: the parser knows the two
  texts below, \<^verbatim>\<open>str\<close> of a value that is not a string is a placeholder, the
  searches find nothing, and the encoder is the identity.
\<close>

definition example_report_text :: string where
  "example_report_text =
     ''{'' @ dq @ ''suites'' @ dq @ '': [{'' @ dq @ ''specs'' @ dq @ '': [{'' @ dq @ ''tests'' @ dq @
     '': [{'' @ dq @ ''title'' @ dq @ '': '' @ dq @ ''Sign Up'' @ dq @ '', '' @ dq @ ''results'' @ dq @
     '': [{'' @ dq @ ''status'' @ dq @ '': '' @ dq @ ''failed'' @ dq @ '', '' @ dq @ ''error'' @ dq @
     '': {'' @ dq @ ''message'' @ dq @ '': '' @ dq @ ''Timeout 30000ms exceeded'' @ dq @
     ''}}, {'' @ dq @ ''status'' @ dq @ '': '' @ dq @ ''passed'' @ dq @ ''}]}]}]}]}''"

definition example_report :: json where
  "example_report =
     JObj [(''suites'', JArr [JObj [(''specs'', JArr [JObj [(''tests'', JArr [
       JObj [(''title'', JStr ''Sign Up''),
             (''results'', JArr [
                JObj [(''status'', JStr ''failed''),
                      (''error'', JObj [(''message'', JStr ''Timeout 30000ms exceeded'')])],
                JObj [(''status'', JStr ''passed'')]])]])]])]])]"

definition null_suites_text :: string where
  "null_suites_text = ''{'' @ dq @ ''suites'' @ dq @ '': null}''"

definition example_lib :: lib where
  "example_lib =
     \<lparr> json_loads = (\<lambda>s. if s = example_report_text then Some example_report
                          else if s = null_suites_text then Some (JObj [(''suites'', JNull)])
                          else None),
       py_repr = (\<lambda>v. ''<value>''),
       re_findall = (\<lambda>p s. []),
       re_findall_role = (\<lambda>s. []),
       format_tenths = (\<lambda>ms. ''<seconds>''),
       b64encode = (\<lambda>b. b) \<rparr>"

definition noisy_output :: string where
  "noisy_output = ''Running 2 tests'' @ nl @ example_report_text @ nl @ ''done''"

subsection \<open>Well-typed inputs\<close>

text \<open>
  A failure as the specification has it carries two texts; a page snapshot as the crawler
  builds it has lists of texts under \<^verbatim>\<open>headings\<close> and \<^verbatim>\<open>buttons\<close>.
\<close>

fun is_str :: "json \<Rightarrow> bool" where
  "is_str (JStr s) = True"
| "is_str v = False"

definition text_failure :: "failure \<Rightarrow> bool" where
  "text_failure f = (is_str (f_title f) \<and> is_str (f_error f))"

fun list_of_texts :: "json \<Rightarrow> bool" where
  "list_of_texts (JArr xs) = list_all is_str xs"
| "list_of_texts v = False"

definition snapshot_ok :: "page_info \<Rightarrow> bool" where
  "snapshot_ok page =
     (list_of_texts (page_get page ''headings'' (JArr [])) \<and>
      list_of_texts (page_get page ''buttons'' (JArr [])))"

fun strings_of :: "json \<Rightarrow> string list" where
  "strings_of (JArr xs) = concat (map (\<lambda>x. case x of JStr s \<Rightarrow> [s] | _ \<Rightarrow> []) xs)"
| "strings_of v = []"

definition observed_texts :: "page_info \<Rightarrow> script_analysis \<Rightarrow> string list" where
  \<comment> \<open>the headings and buttons of the page that are texts, and the test names of the script\<close>
  "observed_texts page sa =
     strings_of (page_get page ''headings'' (JArr [])) @
     strings_of (page_get page ''buttons'' (JArr [])) @ test_names sa"

definition mentions :: "string \<Rightarrow> recommendation \<Rightarrow> bool" where
  \<comment> \<open>the text appears, case-insensitively, in the title or the description\<close>
  "mentions t r =
     (contains (lower (rec_title r)) (lower t) \<or> contains (lower (rec_description r)) (lower t))"

definition signup_failure :: failure where
  "signup_failure =
     \<lparr> f_title = JStr ''Sign Up'', f_error = JStr ''Timeout 30000ms exceeded'' \<rparr>"

definition login_failure :: failure where
  "login_failure = \<lparr> f_title = JStr ''Login works'', f_error = JStr ''Element not found'' \<rparr>"

definition failing_gen :: generator where
  \<comment> \<open>every generative call raises\<close>
  "failing_gen = (\<lambda>k prompt. Inl (OtherException ''429 quota exceeded''))"

definition chatty_gen :: generator where
  \<comment> \<open>every generative call answers with a text\<close>
  "chatty_gen = (\<lambda>k prompt. Inr ''Sorry, I can't help with that'')"

definition seven_lib :: lib where
  \<comment> \<open>a parser that reads every text as an array of seven empty objects\<close>
  "seven_lib = example_lib \<lparr> json_loads := (\<lambda>s. Some (JArr (replicate 7 (JObj [])))) \<rparr>"

definition no_analysis :: script_analysis where
  "no_analysis = \<lparr> test_names = [], selectors = [], assertions = [], interactions = [],
                    element_texts = [] \<rparr>"

definition default_recommendation :: recommendation where
  \<comment> \<open>what validation makes of an empty object\<close>
  "default_recommendation =
     \<lparr> recommendationId = FreshId ''rec_'', rec_title = ''Test Recommendation'',
       rec_description = ''No description provided'', impact = ''medium'', category = ''ux'',
       other_fields = [] \<rparr>"

definition continue_recommendation :: recommendation where
  \<comment> \<open>the fallback for a passing run of \<^verbatim>\<open>https://example.com\<close> without a page snapshot\<close>
  "continue_recommendation =
     \<lparr> recommendationId = FreshId ''rec_'',
       rec_title = ''Continue improving https://example.com'',
       rec_description = ''Your website (https://example.com) passed our initial automated tests. To maintain high quality, we recommend regularly testing key features like forms, buttons, and user workflows. This helps catch issues before your customers do and ensures a smooth experience for everyone visiting https://example.com.'',
       impact = ''medium'', category = ''ux'', other_fields = [] \<rparr>"

subsection \<open>Concrete runs\<close>

definition outcome :: "(exn + response) \<times> string set \<Rightarrow> response option" where
  \<comment> \<open>the response of a run, when the call returns one\<close>
  "outcome run = (case fst run of Inr r \<Rightarrow> Some r | Inl e \<Rightarrow> None)"

definition passing_env :: env where
  \<comment> \<open>the runner prints the example report between two lines of noise; the generative
      calls raise; no screenshot was taken\<close>
  "passing_env =
     \<lparr> gen = failing_gen,
       tmp_file = ''/tmp/ai_test_3f9a1c.spec.js'',
       screenshot_dir = ''/tmp/pw_screens_k2x'',
       open_error = None,
       write_error = None,
       proc = Inr (noisy_output, []),
       elapsed_ms = 4200,
       listdir = Inr [],
       getmtime = (\<lambda>f. Inr 0),
       read_file = (\<lambda>f. Inr []),
       remove_error = None,
       rmtree_error = None \<rparr>"

definition timeout_env :: env where
  \<comment> \<open>the runner exceeds the ceiling\<close>
  "timeout_env =
     passing_env \<lparr> proc := Inl (TimeoutExpired ''Command timed out after 300 seconds'') \<rparr>"

definition locked_env :: env where
  \<comment> \<open>the runner exceeds the ceiling, and the script file cannot be removed afterwards\<close>
  "locked_env =
     timeout_env \<lparr> remove_error := Some (OSError ''[WinError 32] The process cannot access the file because it is being used by another process'') \<rparr>"

definition null_suites_env :: env where
  \<comment> \<open>the runner prints a report whose suites are null, and the same warning twice\<close>
  "null_suites_env =
     passing_env \<lparr> proc := Inr (null_suites_text, ''warning: deprecated'' @ nl @ ''warning: deprecated'') \<rparr>"

definition example_script :: string where
  "example_script = ''await page.goto(url);''"



section \<open>Facts about the text primitives\<close>

lemma startswith_Nil [simp]: "startswith s []"
  by (simp add: startswith_def)

lemma startswith_iff: "startswith s p \<longleftrightarrow> (\<exists>r. s = p @ r)"
  unfolding startswith_def
  by (metis append_eq_conv_conj append_take_drop_id)

lemma contains_iff: "contains s p \<longleftrightarrow> (\<exists>xs ys. s = xs @ p @ ys)"
proof (induction s)
  case Nil
  then show ?case by auto
next
  case (Cons c cs)
  show ?case
  proof
    assume "contains (c # cs) p"
    then consider "startswith (c # cs) p" | "contains cs p" by auto
    then show "\<exists>xs ys. c # cs = xs @ p @ ys"
    proof cases
      case 1
      then obtain r where "c # cs = p @ r" using startswith_iff by blast
      then have "c # cs = [] @ p @ r" by simp
      then show ?thesis by blast
    next
      case 2
      then obtain xs ys where "cs = xs @ p @ ys" using Cons.IH by blast
      then have "c # cs = (c # xs) @ p @ ys" by simp
      then show ?thesis by blast
    qed
  next
    assume "\<exists>xs ys. c # cs = xs @ p @ ys"
    then obtain xs ys where e: "c # cs = xs @ p @ ys" by blast
    show "contains (c # cs) p"
    proof (cases xs)
      case Nil
      then have "startswith (c # cs) p" using e startswith_iff by auto
      then show ?thesis by simp
    next
      case (Cons x xs')
      then have "cs = xs' @ p @ ys" using e by simp
      then have "contains cs p" using Cons.IH by blast
      then show ?thesis by simp
    qed
  qed
qed

lemma find_from_Some:
  "find_from i s p = Some k \<Longrightarrow>
     i \<le> k \<and> k - i \<le> length s \<and> startswith (drop (k - i) s) p \<and>
     (\<forall>j < k - i. \<not> startswith (drop j s) p)"
proof (induction i s p arbitrary: k rule: find_from.induct)
  case (1 i p)
  then show ?case by (auto split: if_splits)
next
  case (2 i c cs p)
  show ?case
  proof (cases "startswith (c # cs) p")
    case True
    then show ?thesis using 2 by auto
  next
    case False
    then have f: "find_from (Suc i) cs p = Some k" using 2(2) by simp
    from 2(1)[OF False f] have ih: "Suc i \<le> k" "k - Suc i \<le> length cs"
      "startswith (drop (k - Suc i) cs) p" "\<forall>j < k - Suc i. \<not> startswith (drop j cs) p" by auto
    have ki: "k - i = Suc (k - Suc i)" using ih(1) by simp
    have "\<forall>j < k - i. \<not> startswith (drop j (c # cs)) p"
    proof (intro allI impI)
      fix j assume "j < k - i"
      show "\<not> startswith (drop j (c # cs)) p"
      proof (cases j)
        case 0 then show ?thesis using False by simp
      next
        case (Suc j')
        then have "j' < k - Suc i" using \<open>j < k - i\<close> ki by simp
        then show ?thesis using ih(4) Suc by simp
      qed
    qed
    then show ?thesis using ih ki by simp
  qed
qed

lemma find_from_None:
  "find_from i s p = None \<Longrightarrow> \<forall>j \<le> length s. \<not> startswith (drop j s) p"
proof (induction i s p rule: find_from.induct)
  case (1 i p)
  then show ?case by (auto split: if_splits simp: startswith_def)
next
  case (2 i c cs p)
  then have nf: "\<not> startswith (c # cs) p" and f: "find_from (Suc i) cs p = None"
    by (auto split: if_splits)
  from 2(1)[OF nf f] have ih: "\<forall>j \<le> length cs. \<not> startswith (drop j cs) p" .
  show ?case
  proof (intro allI impI)
    fix j assume "j \<le> length (c # cs)"
    then show "\<not> startswith (drop j (c # cs)) p"
      using nf ih by (cases j) auto
  qed
qed

lemma str_find_Some:
  "str_find s p = Some k \<Longrightarrow>
     k \<le> length s \<and> startswith (drop k s) p \<and> (\<forall>j < k. \<not> startswith (drop j s) p)"
  using find_from_Some[of 0 s p k] by (simp add: str_find_def)

lemma str_find_None: "str_find s p = None \<Longrightarrow> \<not> contains s p"
proof
  assume n: "str_find s p = None" and c: "contains s p"
  then obtain xs ys where "s = xs @ p @ ys" using contains_iff by blast
  then have "startswith (drop (length xs) s) p" "length xs \<le> length s"
    by (auto simp: startswith_iff)
  then show False using find_from_None[of 0 s p] n by (auto simp: str_find_def)
qed

section \<open>The severity classifier\<close>

text \<open>
  Claim C5. The classifier is a total function of the two texts. Its result is one of the
  four severities, and it is decided by keyword rules on the lower-cased texts, in this
  order: a critical keyword in the error text gives critical; otherwise a high keyword in
  the test title gives high; otherwise a medium keyword in the error text gives medium;
  otherwise high.
\<close>

theorem severity_classifier_rules:
  "categorize_bug_severity e t \<in> {''critical'', ''high'', ''medium'', ''low''} \<and>
   categorize_bug_severity e t =
     (if contains (lower e) ''timeout'' \<or> contains (lower e) ''crash'' \<or>
         contains (lower e) ''cannot load'' \<or> contains (lower e) ''failed to load'' \<or>
         contains (lower e) ''navigation'' \<or> contains (lower e) ''net::err''
      then ''critical''
      else if contains (lower t) ''login'' \<or> contains (lower t) ''checkout'' \<or>
         contains (lower t) ''payment'' \<or> contains (lower t) ''submit'' \<or>
         contains (lower t) ''form'' \<or> contains (lower t) ''authentication'' \<or>
         contains (lower t) ''authorization''
      then ''high''
      else if contains (lower e) ''not found'' \<or> contains (lower e) ''not visible'' \<or>
         contains (lower e) ''missing'' \<or> contains (lower e) ''locator''
      then ''medium''
      else ''high'')"
  by (simp add: categorize_bug_severity_def critical_keywords_def high_keywords_def
      medium_keywords_def Let_def)

theorem severity_classifier_rules_witness:
  "categorize_bug_severity ''Timeout 30000ms exceeded waiting for locator'' ''Sign Up button'' = ''critical'' \<and>
   categorize_bug_severity ''Element NOT FOUND'' ''Login works'' = ''high'' \<and>
   categorize_bug_severity ''Element NOT FOUND'' ''Header shows'' = ''medium'' \<and>
   categorize_bug_severity ''expected 1 got 2'' ''Header shows'' = ''high''"
  using severity_classifier_rules[of "''Timeout 30000ms exceeded waiting for locator''" "''Sign Up button''"]
    severity_classifier_rules[of "''Element NOT FOUND''" "''Login works''"]
    severity_classifier_rules[of "''Element NOT FOUND''" "''Header shows''"]
    severity_classifier_rules[of "''expected 1 got 2''" "''Header shows''"]
  by (simp add: lower_def is_upper_def startswith_def)


section \<open>Script normalisation is not idempotent\<close>

lemma strip_fix: "dropWhile is_space (strip s) = strip s"
proof (cases "dropWhile is_space s")
  case Nil show ?thesis unfolding strip_def Nil by simp
next
  case (Cons x xs)
  then have nx: "\<not> is_space x" by (metis dropWhile_eq_Cons_conv)
  show ?thesis using nx unfolding strip_def Cons by (simp add: dropWhile_append3)
qed

lemma strip_idem: "strip (strip s) = strip s"
  by (metis strip_fix strip_def rev_rev_ident)

lemma strip_decomp:
  "s = takeWhile is_space s @ strip s @ rev (takeWhile is_space (rev (dropWhile is_space s)))"
  by (metis rev_eq_append_conv strip_def takeWhile_dropWhile_id)

lemma strip_hd: "strip s \<noteq> [] \<Longrightarrow> \<not> is_space (hd (strip s))"
  by (metis strip_fix hd_dropWhile)

lemma strip_last: "strip s \<noteq> [] \<Longrightarrow> \<not> is_space (last (strip s))"
proof -
  assume a: "strip s \<noteq> []"
  let ?t = "dropWhile is_space (rev (dropWhile is_space s))"
  have e: "strip s = rev ?t" by (simp add: strip_def)
  then have "?t \<noteq> []" using a by simp
  then have "\<not> is_space (hd ?t)" by (rule hd_dropWhile)
  moreover have "last (rev ?t) = hd ?t" using \<open>?t \<noteq> []\<close> by (simp add: last_rev)
  ultimately show ?thesis using e by simp
qed

lemma bq_not_space: "\<not> is_space (CHR 0x60)"
  by (simp add: is_space_def)

lemma startswith_strip_fence: "startswith s fence \<Longrightarrow> startswith (strip s) fence"
proof -
  assume "startswith s fence"
  then obtain r where s: "s = fence @ r" using startswith_iff by blast
  have d: "dropWhile is_space s = s" using s bq_not_space by (simp add: fence_def)
  have "rev s = rev r @ [CHR 0x60, CHR 0x60, CHR 0x60]" using s by (simp add: fence_def)
  then have "dropWhile is_space (rev s) = dropWhile is_space (rev r) @ [CHR 0x60, CHR 0x60, CHR 0x60]"
    using bq_not_space by (simp add: dropWhile_append3)
  then have "strip s = fence @ rev (dropWhile is_space (rev r))"
    unfolding strip_def d by (simp add: fence_def)
  then show ?thesis using startswith_iff by blast
qed

lemma join_no_fence:
  "(\<And>l. l \<in> set ls \<Longrightarrow> \<not> startswith l fence) \<Longrightarrow> \<not> startswith (join nl ls) fence"
proof (cases ls)
  case Nil
  then show ?thesis by (simp add: startswith_def fence_def)
next
  case (Cons x xs)
  assume a: "\<And>l. l \<in> set ls \<Longrightarrow> \<not> startswith l fence"
  then have nx: "\<not> startswith x fence" using Cons by simp
  show ?thesis
  proof (cases xs)
    case Nil
    then show ?thesis using nx Cons by simp
  next
    case (Cons y ys)
    have "\<not> startswith (x @ nl @ r) fence" for r
      using nx
      by (cases x; cases "tl x"; cases "tl (tl x)"; simp add: startswith_def fence_def nl_def)
    then show ?thesis using Cons \<open>ls = x # xs\<close> by simp
  qed
qed

lemma filter_fence_lines:
  "l \<in> set (filter (\<lambda>l. \<not> startswith (strip l) fence) ls) \<Longrightarrow> \<not> startswith l fence"
proof
  assume m: "l \<in> set (filter (\<lambda>l. \<not> startswith (strip l) fence) ls)" and f: "startswith l fence"
  from m have "\<not> startswith (strip l) fence" by simp
  then show False using startswith_strip_fence[OF f] by simp
qed

lemma clean_script_not_fence: "startswith s fence \<Longrightarrow> \<not> startswith (clean_script s) fence"
proof -
  assume f: "startswith s fence"
  have "\<not> startswith (join nl (filter (\<lambda>l. \<not> startswith (strip l) fence) (splitlines s))) fence"
    by (rule join_no_fence) (rule filter_fence_lines)
  then show ?thesis using f by (simp add: clean_script_def)
qed

lemma clean_fenced_example: "clean_script fenced_example = ''  await page.goto(url);''"
  by code_simp

lemma clean_plain: "clean_script ''  await page.goto(url);'' = ''await page.goto(url);''"
  by code_simp

text \<open>
  Claim C7, as stated, fails: the cleaner applied to its own output can change it. The
  fenced example cleans to its indented line, and cleaning that line trims the indentation.
\<close>

theorem clean_script_not_idempotent:
  "clean_script (clean_script fenced_example) \<noteq> clean_script fenced_example"
  by (simp add: clean_fenced_example clean_plain)

text \<open>
  Claim C7, amended. When the text begins with a fence, the result is the lines of the
  input that are not fence lines, each verbatim, joined by newlines, and a second
  application only trims the leading and trailing whitespace of the first result. When the
  text does not begin with a fence, the result is the input without its leading and trailing
  whitespace. When the trimmed text does not begin with a fence, a second application
  changes nothing.
\<close>

theorem clean_script_shape:
  "(startswith s fence \<longrightarrow>
      clean_script s = join nl (filter (\<lambda>l. \<not> startswith (strip l) fence) (splitlines s)) \<and>
      clean_script (clean_script s) = strip (clean_script s)) \<and>
   (\<not> startswith s fence \<longrightarrow>
      clean_script s = strip s \<and>
      s = takeWhile is_space s @ clean_script s @
            rev (takeWhile is_space (rev (dropWhile is_space s))) \<and>
      (clean_script s = [] \<or>
         \<not> is_space (hd (clean_script s)) \<and> \<not> is_space (last (clean_script s)))) \<and>
   (\<not> startswith (strip s) fence \<longrightarrow> clean_script (clean_script s) = clean_script s)"
proof (intro conjI impI)
  assume f: "startswith s fence"
  show "clean_script s = join nl (filter (\<lambda>l. \<not> startswith (strip l) fence) (splitlines s))"
    using f by (simp add: clean_script_def)
  show "clean_script (clean_script s) = strip (clean_script s)"
    using clean_script_not_fence[OF f] by (simp add: clean_script_def[of "clean_script s"])
next
  assume nf: "\<not> startswith s fence"
  show "clean_script s = strip s" using nf by (simp add: clean_script_def)
  show "s = takeWhile is_space s @ clean_script s @
            rev (takeWhile is_space (rev (dropWhile is_space s)))"
    using nf strip_decomp[of s] by (simp add: clean_script_def)
  show "clean_script s = [] \<or>
         \<not> is_space (hd (clean_script s)) \<and> \<not> is_space (last (clean_script s))"
    using nf strip_hd[of s] strip_last[of s] by (auto simp: clean_script_def)
next
  assume ns: "\<not> startswith (strip s) fence"
  then have nf: "\<not> startswith s fence" using startswith_strip_fence by blast
  then have c: "clean_script s = strip s" by (simp add: clean_script_def)
  show "clean_script (clean_script s) = clean_script s"
    unfolding c using ns by (simp add: clean_script_def[of "strip s"] strip_idem)
qed

theorem clean_script_shape_witness:
  "startswith fenced_example fence \<and>
   clean_script fenced_example = ''  await page.goto(url);'' \<and>
   clean_script (clean_script fenced_example) = ''await page.goto(url);'' \<and>
   \<not> startswith ''  x = 1;  '' fence \<and> \<not> startswith (strip ''  x = 1;  '') fence \<and>
   clean_script ''  x = 1;  '' = ''x = 1;'' \<and>
   clean_script (clean_script ''  x = 1;  '') = clean_script ''  x = 1;  ''"
proof -
  have h1: "startswith fenced_example fence" by code_simp
  have h2: "\<not> startswith ''  x = 1;  '' fence" by code_simp
  have s2: "strip ''  x = 1;  '' = ''x = 1;''" by code_simp
  have h3: "\<not> startswith (strip ''  x = 1;  '') fence" by code_simp
  have d: "strip ''  await page.goto(url);'' = ''await page.goto(url);''" by code_simp
  note t1 = clean_script_shape[of fenced_example]
  note t2 = clean_script_shape[of "''  x = 1;  ''"]
  have a: "clean_script (clean_script fenced_example) = strip (clean_script fenced_example)"
    using conjunct1[OF t1, THEN mp, OF h1] by (rule conjunct2)
  have b: "clean_script ''  x = 1;  '' = strip ''  x = 1;  ''"
    using conjunct1[OF conjunct2[OF t2], THEN mp, OF h2] by (rule conjunct1)
  have c: "clean_script (clean_script ''  x = 1;  '') = clean_script ''  x = 1;  ''"
    using conjunct2[OF conjunct2[OF t2], THEN mp, OF h3] .
  have e: "clean_script (clean_script fenced_example) = ''await page.goto(url);''"
    using a clean_fenced_example d by metis
  have f: "clean_script ''  x = 1;  '' = ''x = 1;''" using b s2 by metis
  show ?thesis using h1 h2 h3 e f c clean_fenced_example by blast
qed

section \<open>Result extraction and the walk over the report\<close>

lemma shrink_span_None:
  "(\<And>m. 0 < m \<Longrightarrow> m \<le> k \<Longrightarrow> json_loads L (str_slice s i (i + m)) = None) \<Longrightarrow>
   shrink_span L s i k = JNull"
proof (induction k)
  case 0
  then show ?case by simp
next
  case (Suc k)
  have n: "json_loads L (str_slice s i (i + Suc k)) = None" using Suc.prems[of "Suc k"] by simp
  have "shrink_span L s i k = JNull" using Suc.IH Suc.prems by simp
  then show ?case using n by simp
qed

lemma shrink_span_Some:
  "0 < m \<Longrightarrow> m \<le> k \<Longrightarrow> json_loads L (str_slice s i (i + m)) = Some v \<Longrightarrow>
   (\<And>m'. m < m' \<Longrightarrow> m' \<le> k \<Longrightarrow> json_loads L (str_slice s i (i + m')) = None) \<Longrightarrow>
   shrink_span L s i k = v"
proof (induction k)
  case 0
  then show ?case by simp
next
  case (Suc k)
  show ?case
  proof (cases "m = Suc k")
    case True
    then show ?thesis using Suc.prems(3) by simp
  next
    case False
    then have mk: "m \<le> k" using Suc.prems(2) by simp
    have n: "json_loads L (str_slice s i (i + Suc k)) = None"
      using Suc.prems(4)[of "Suc k"] mk by simp
    have "shrink_span L s i k = v"
      using Suc.IH[OF Suc.prems(1) mk Suc.prems(3)] Suc.prems(4) by simp
    then show ?thesis using n by simp
  qed
qed

lemma str_find_contains: "str_find s p = Some k \<Longrightarrow> contains s p"
proof -
  assume "str_find s p = Some k"
  then have "startswith (drop k s) p" using str_find_Some by blast
  then obtain r where "drop k s = p @ r" using startswith_iff by blast
  then have "s = take k s @ p @ r" by (metis append_take_drop_id)
  then show ?thesis using contains_iff by blast
qed


lemma report_log_lines_append [simp]:
  "report_log_lines L (ps @ qs) = report_log_lines L ps @ report_log_lines L qs"
  by (simp add: report_log_lines_def)

lemma report_failures_append [simp]:
  "report_failures L (ps @ qs) = report_failures L ps @ report_failures L qs"
  by (simp add: report_failures_def)

lemma report_nil [simp]: "report_log_lines L [] = []" "report_failures L [] = []"
  by (simp_all add: report_log_lines_def report_failures_def)

lemma for_each_collect:
  assumes "\<And>x st. x \<in> set xs \<Longrightarrow>
     body x st = Inr (fst st @ report_log_lines L (g x), snd st @ report_failures L (g x))"
  shows "for_each body xs st =
     Inr (fst st @ report_log_lines L (concat (map g xs)),
          snd st @ report_failures L (concat (map g xs)))"
  using assms
proof (induction xs arbitrary: st)
  case Nil
  then show ?case by simp
next
  case (Cons x xs)
  have b: "body x st = Inr (fst st @ report_log_lines L (g x), snd st @ report_failures L (g x))"
    using Cons.prems by simp
  have r: "for_each body xs (fst st @ report_log_lines L (g x), snd st @ report_failures L (g x)) =
     Inr (fst (fst st @ report_log_lines L (g x), snd st @ report_failures L (g x)) @
            report_log_lines L (concat (map g xs)),
          snd (fst st @ report_log_lines L (g x), snd st @ report_failures L (g x)) @
            report_failures L (concat (map g xs)))"
    by (rule Cons.IH) (simp add: Cons.prems)
  show ?case by (simp add: b r)
qed

lemma level_collect:
  assumes lo: "list_of_objects k v"
    and body: "\<And>x st. x \<in> set (items_at k v) \<Longrightarrow>
      body x st = Inr (fst st @ report_log_lines L (g x), snd st @ report_failures L (g x))"
  shows "guard st (py_get v k (JArr [])) (\<lambda>xs. guard st (py_iter xs) (\<lambda>items. for_each body items st)) =
     Inr (fst st @ report_log_lines L (concat (map g (items_at k v))),
          snd st @ report_failures L (concat (map g (items_at k v))))"
proof -
  obtain kvs where v: "v = JObj kvs" using lo by (cases v) auto
  show ?thesis
  proof (cases "map_of kvs k")
    case None
    then show ?thesis by (simp add: v guard_def dict_get_def)
  next
    case (Some w)
    then obtain xs where w: "w = JArr xs" using lo v by (cases w) auto
    have i: "items_at k v = xs" using v Some w by simp
    have "for_each body xs st =
      Inr (fst st @ report_log_lines L (concat (map g xs)),
           snd st @ report_failures L (concat (map g xs)))"
      by (rule for_each_collect) (simp add: body i)
    then show ?thesis using v Some w by (simp add: guard_def dict_get_def)
  qed
qed

lemma on_result_ok:
  assumes "is_obj test" "is_obj r"
  shows "on_result L test r st =
     Inr (fst st @ report_log_lines L [(test, r)], snd st @ report_failures L [(test, r)])"
proof -
  obtain tk where t: "test = JObj tk" using assms(1) by (cases test) auto
  obtain rk where r: "r = JObj rk" using assms(2) by (cases r) auto
  show ?thesis
    unfolding t r
    by (auto simp: on_result_def guard_def dict_get_def Let_def report_log_lines_def
        report_failures_def failing_def title_of_def message_of_def failure_message_def
        split: option.splits json.splits)
qed

lemma on_test_ok:
  assumes "is_obj test" "list_of_objects ''results'' test"
  shows "on_test L test st =
     Inr (fst st @ report_log_lines L (test_results test),
          snd st @ report_failures L (test_results test))"
proof -
  have ob: "\<And>x. x \<in> set (items_at ''results'' test) \<Longrightarrow> is_obj x"
  proof -
    fix x assume x: "x \<in> set (items_at ''results'' test)"
    obtain kvs where v: "test = JObj kvs" using assms(1) by (cases test) auto
    show "is_obj x" using x assms(2) unfolding v
      by (auto simp: list_all_iff split: option.splits json.splits)
  qed
  have "on_test L test st =
     Inr (fst st @ report_log_lines L (concat (map (\<lambda>r. [(test, r)]) (items_at ''results'' test))),
          snd st @ report_failures L (concat (map (\<lambda>r. [(test, r)]) (items_at ''results'' test))))"
    unfolding on_test_def
    by (rule level_collect[OF assms(2)]) (simp add: on_result_ok[OF assms(1)] ob)
  moreover have "concat (map (\<lambda>r. [(test, r)]) (items_at ''results'' test)) = test_results test"
    by (simp add: test_results_def concat_map_singleton)
  ultimately show ?thesis by simp
qed

lemma items_are_objects:
  "list_of_objects k v \<Longrightarrow> x \<in> set (items_at k v) \<Longrightarrow> is_obj x"
  by (cases v) (auto simp: list_all_iff split: option.splits json.splits)

lemma on_spec_ok:
  assumes "list_of_objects ''tests'' spec"
    and "list_all (\<lambda>test. list_of_objects ''results'' test) (items_at ''tests'' spec)"
  shows "on_spec L spec st =
     Inr (fst st @ report_log_lines L (spec_results spec),
          snd st @ report_failures L (spec_results spec))"
  unfolding on_spec_def spec_results_def
  by (rule level_collect[OF assms(1)])
     (use assms in \<open>simp add: on_test_ok items_are_objects list_all_iff\<close>)

lemma on_suite_ok:
  assumes "list_of_objects ''specs'' suite"
    and "list_all (\<lambda>spec. list_of_objects ''tests'' spec \<and>
           list_all (\<lambda>test. list_of_objects ''results'' test) (items_at ''tests'' spec))
           (items_at ''specs'' suite)"
  shows "on_suite L suite st =
     Inr (fst st @ report_log_lines L (suite_results suite),
          snd st @ report_failures L (suite_results suite))"
  unfolding on_suite_def suite_results_def
  by (rule level_collect[OF assms(1)])
     (use assms in \<open>simp add: on_spec_ok list_all_iff\<close>)

lemma walk_report_ok:
  assumes "well_formed_report rep"
  shows "walk_report L rep st =
     Inr (fst st @ report_log_lines L (report_results rep),
          snd st @ report_failures L (report_results rep))"
proof -
  have a: "list_of_objects ''suites'' rep" using assms by (simp add: well_formed_report_def)
  show ?thesis
    unfolding walk_report_def report_results_def
    by (rule level_collect[OF a])
       (use assms in \<open>simp add: on_suite_ok list_all_iff well_formed_report_def\<close>)
qed

lemma failure_titles:
  "set (map f_title (report_failures L ps)) = title_of ` {p \<in> set ps. failing p}"
  by (auto simp: report_failures_def)


lemma example_text_length: "length example_report_text = 167" by code_simp
lemma noisy_length: "length noisy_output = 188" by code_simp

lemma example_loads_longer:
  "length s > 167 \<Longrightarrow> json_loads example_lib s = None"
  using example_text_length by (auto simp: example_lib_def null_suites_text_def dq_def)

text \<open>
  Claim C6. The extractor is total. On the empty text it gives \<open>None\<close>; on a text the
  parser accepts it gives the parse; otherwise it looks for the first occurrence of the
  marker (\<open>str_find\<close> gives the lowest index, and nothing when the marker does not occur),
  gives \<open>None\<close> when there is none or when no span from the marker parses, and else the
  parse of the longest span from the marker that parses. On a well-formed structured
  report the walk does not raise; it logs one line per result and appends one failure
  record for exactly the results whose status is failed or timedOut, in document order,
  with the title of the test and the message of the error, so the titles of the failures
  are the titles of the failing results of the report. (A report that is an empty
  dictionary is not walked; it has no results.)
\<close>

theorem result_extraction:
  "extract_json L [] = JNull \<and>
   (out \<noteq> [] \<and> json_loads L out = Some v \<longrightarrow> extract_json L out = v) \<and>
   (str_find out suites_marker = None \<longrightarrow> \<not> contains out suites_marker) \<and>
   (str_find out suites_marker = Some start \<longrightarrow>
      start \<le> length out \<and> startswith (drop start out) suites_marker \<and>
      (\<forall>k. k < start \<longrightarrow> \<not> startswith (drop k out) suites_marker)) \<and>
   (out \<noteq> [] \<and> json_loads L out = None \<and> str_find out suites_marker = None \<longrightarrow>
      extract_json L out = JNull) \<and>
   (out \<noteq> [] \<and> json_loads L out = None \<and> str_find out suites_marker = Some start \<and>
    (\<forall>e. start < e \<and> e \<le> length out \<longrightarrow> json_loads L (str_slice out start e) = None) \<longrightarrow>
      extract_json L out = JNull) \<and>
   (out \<noteq> [] \<and> json_loads L out = None \<and> str_find out suites_marker = Some start \<and>
    start < e \<and> e \<le> length out \<and> json_loads L (str_slice out start e) = Some w \<and>
    (\<forall>e'. e < e' \<and> e' \<le> length out \<longrightarrow> json_loads L (str_slice out start e') = None) \<longrightarrow>
      extract_json L out = w) \<and>
   (well_formed_report rep \<longrightarrow>
      walk_report L rep (lg, fs) =
        Inr (lg @ report_log_lines L (report_results rep),
             fs @ report_failures L (report_results rep)) \<and>
      set (map f_title (report_failures L (report_results rep))) =
        title_of ` {p \<in> set (report_results rep). failing p} \<and>
      (\<not> truthy rep \<longrightarrow> report_results rep = []))"
proof (intro conjI impI)
  show "extract_json L [] = JNull" by (simp add: extract_json_def)
next
  assume "out \<noteq> [] \<and> json_loads L out = Some v"
  then show "extract_json L out = v" by (simp add: extract_json_def)
next
  assume "str_find out suites_marker = None"
  then show "\<not> contains out suites_marker" by (rule str_find_None)
next
  assume a: "str_find out suites_marker = Some start"
  show "start \<le> length out" using str_find_Some[OF a] by simp
  show "startswith (drop start out) suites_marker" using str_find_Some[OF a] by simp
  show "\<forall>k. k < start \<longrightarrow> \<not> startswith (drop k out) suites_marker" using str_find_Some[OF a] by simp
next
  assume "out \<noteq> [] \<and> json_loads L out = None \<and> str_find out suites_marker = None"
  then show "extract_json L out = JNull" by (simp add: extract_json_def)
next
  assume a: "out \<noteq> [] \<and> json_loads L out = None \<and> str_find out suites_marker = Some start \<and>
    (\<forall>e. start < e \<and> e \<le> length out \<longrightarrow> json_loads L (str_slice out start e) = None)"
  then have le: "start \<le> length out" using str_find_Some by blast
  have "shrink_span L out start (length out - start) = JNull"
  proof (rule shrink_span_None)
    fix m assume "0 < m" "m \<le> length out - start"
    then have "start < start + m \<and> start + m \<le> length out" using le by simp
    then show "json_loads L (str_slice out start (start + m)) = None" using a by blast
  qed
  then show "extract_json L out = JNull" using a by (simp add: extract_json_def)
next
  assume a: "out \<noteq> [] \<and> json_loads L out = None \<and> str_find out suites_marker = Some start \<and>
    start < e \<and> e \<le> length out \<and> json_loads L (str_slice out start e) = Some w \<and>
    (\<forall>e'. e < e' \<and> e' \<le> length out \<longrightarrow> json_loads L (str_slice out start e') = None)"
  have e: "start + (e - start) = e" using a by simp
  have "shrink_span L out start (length out - start) = w"
  proof (rule shrink_span_Some[where m = "e - start"])
    show "0 < e - start" using a by simp
    show "e - start \<le> length out - start" using a by (simp add: diff_le_mono)
    show "json_loads L (str_slice out start (start + (e - start))) = Some w" using a e by simp
    fix m' assume "e - start < m'" "m' \<le> length out - start"
    then have "e < start + m' \<and> start + m' \<le> length out" using a by auto
    then show "json_loads L (str_slice out start (start + m')) = None" using a by blast
  qed
  then show "extract_json L out = w" using a by (simp add: extract_json_def)
next
  assume wf: "well_formed_report rep"
  show "walk_report L rep (lg, fs) =
        Inr (lg @ report_log_lines L (report_results rep),
             fs @ report_failures L (report_results rep))"
    using walk_report_ok[OF wf, of L "(lg, fs)"] by simp
  show "set (map f_title (report_failures L (report_results rep))) =
        title_of ` {p \<in> set (report_results rep). failing p}"
    by (rule failure_titles)
  assume "\<not> truthy rep"
  then show "report_results rep = []"
    by (cases rep) (simp_all add: report_results_def)
qed

theorem result_extraction_witness:
  "extract_json example_lib noisy_output = example_report \<and>
   walk_report example_lib example_report ([], []) =
     Inr ([''> Sign Up - failed'', ''> Sign Up - passed''],
          [\<lparr> f_title = JStr ''Sign Up'', f_error = JStr ''Timeout 30000ms exceeded'' \<rparr>]) \<and>
   set (map f_title (report_failures example_lib (report_results example_report))) =
     {JStr ''Sign Up''}"
proof -
  have h1: "noisy_output \<noteq> []" by code_simp
  have h2: "json_loads example_lib noisy_output = None" by code_simp
  have h3: "str_find noisy_output suites_marker = Some 16" by code_simp
  have h4: "json_loads example_lib (str_slice noisy_output 16 183) = Some example_report"
    by code_simp
  have h5: "\<forall>e'. 183 < e' \<and> e' \<le> length noisy_output \<longrightarrow>
              json_loads example_lib (str_slice noisy_output 16 e') = None"
  proof (intro allI impI)
    fix e' :: nat assume "183 < e' \<and> e' \<le> length noisy_output"
    then have "length (str_slice noisy_output 16 e') > 167"
      by (auto simp: str_slice_def noisy_length)
    then show "json_loads example_lib (str_slice noisy_output 16 e') = None"
      by (rule example_loads_longer)
  qed
  have h6: "(16::nat) < 183 \<and> 183 \<le> length noisy_output" by (simp add: noisy_length)
  have wf: "well_formed_report example_report" by code_simp
  note t = result_extraction[of example_lib noisy_output _ 16 183 example_report example_report "[]" "[]"]
  have a: "extract_json example_lib noisy_output = example_report"
    using t h1 h2 h3 h4 h5 h6 by blast
  have b: "walk_report example_lib example_report ([], []) =
        Inr ([] @ report_log_lines example_lib (report_results example_report),
             [] @ report_failures example_lib (report_results example_report))"
    and c: "set (map f_title (report_failures example_lib (report_results example_report))) =
        title_of ` {p \<in> set (report_results example_report). failing p}"
    using t wf by blast+
  have d: "report_log_lines example_lib (report_results example_report) =
      [''> Sign Up - failed'', ''> Sign Up - passed'']" by code_simp
  have e: "report_failures example_lib (report_results example_report) =
      [\<lparr> f_title = JStr ''Sign Up'', f_error = JStr ''Timeout 30000ms exceeded'' \<rparr>]"
    by code_simp
  show ?thesis using a b c d e by simp
qed

section \<open>Bug generation\<close>

lemma seq_Inr_iff: "seq m k = Inr y \<longleftrightarrow> (\<exists>v. m = Inr v \<and> k v = Inr y)"
  by (cases m) (auto simp: seq_def)

lemma seq_Inr [simp]: "seq (Inr v) k = k v"
  by (simp add: seq_def)

lemma seq_Inl [simp]: "seq (Inl e) k = Inl e"
  by (simp add: seq_def)

lemma traverse_length: "traverse f xs = Inr ys \<Longrightarrow> length ys = length xs"
proof (induction xs arbitrary: ys)
  case Nil
  then show ?case by simp
next
  case (Cons x xs)
  then obtain y ys' where "f x = Inr y" "traverse f xs = Inr ys'" "ys = y # ys'"
    by (auto simp: seq_Inr_iff)
  then show ?case using Cons.IH by simp
qed

lemma traverse_total:
  "(\<And>x. x \<in> set xs \<Longrightarrow> \<exists>y. f x = Inr y) \<Longrightarrow> \<exists>ys. traverse f xs = Inr ys"
proof (induction xs)
  case Nil
  then show ?case by simp
next
  case (Cons x xs)
  obtain y where y: "f x = Inr y" using Cons.prems by auto
  obtain ys where ys: "traverse f xs = Inr ys" using Cons by auto
  show ?case by (simp add: y ys)
qed

lemma create_simple_bugs_length:
  "create_simple_bugs L failures test_url page = Inr bs \<Longrightarrow> length bs = min 5 (length failures)"
  unfolding create_simple_bugs_def by (drule traverse_length) (simp add: min.commute)

lemma simple_bug_total: "text_failure f \<Longrightarrow> \<exists>b. simple_bug L test_url page f = Inr b"
  by (cases "f_title f"; cases "f_error f") (auto simp: text_failure_def simple_bug_def)

lemma create_simple_bugs_total:
  assumes "list_all text_failure failures"
  shows "\<exists>bs. create_simple_bugs L failures test_url page = Inr bs"
  unfolding create_simple_bugs_def
proof (rule traverse_total)
  fix x assume "x \<in> set (take 5 failures)"
  then have "x \<in> set failures" by (rule in_set_takeD)
  then have "text_failure x" using assms by (simp add: list_all_iff)
  then show "\<exists>y. simple_bug L test_url page x = Inr y" by (rule simple_bug_total)
qed

lemma validate_bugs_length:
  "validate_bugs L test_url failures i cands = Inr vs \<Longrightarrow>
     length vs \<le> length cands \<and> length vs \<le> length failures - i"
proof (induction cands arbitrary: i vs)
  case Nil
  then show ?case by simp
next
  case (Cons b bs)
  show ?case
  proof (cases "i \<ge> length failures")
    case True
    then show ?thesis using Cons.prems by simp
  next
    case False
    then obtain v vs' where r: "validate_bugs L test_url failures (Suc i) bs = Inr vs'" "vs = v # vs'"
      using Cons.prems by (auto simp: seq_Inr_iff)
    from Cons.IH[OF r(1)] have "length vs' \<le> length bs" "length vs' \<le> length failures - Suc i"
      by auto
    then show ?thesis using r(2) False by simp
  qed
qed

lemma generate_cases:
  assumes r: "generate_user_friendly_bugs L g n failures test_url page sa = (res, n')"
  shows "(failures = [] \<and> res = Inr [] \<and> n' = n) \<or>
     (failures \<noteq> [] \<and> res = create_simple_bugs L failures test_url page \<and> n' \<le> Suc n) \<or>
     (failures \<noteq> [] \<and> n' = Suc n \<and>
        (\<exists>parsed vs. res = Inr vs \<and>
           validate_bugs L test_url failures 0 (take 5 (as_list parsed)) = Inr vs))"
proof (cases "failures = []")
  case True
  then show ?thesis using r by (simp add: generate_user_friendly_bugs_def)
next
  case ne: False
  show ?thesis
  proof (cases "bug_prompt L failures test_url page sa")
    case (Inl e)
    then show ?thesis using r ne by (simp add: generate_user_friendly_bugs_def)
  next
    case p: (Inr prompt)
    show ?thesis
    proof (cases "g n prompt")
      case (Inl e)
      then show ?thesis using r ne p by (simp add: generate_user_friendly_bugs_def)
    next
      case a: (Inr response)
      show ?thesis
      proof (cases "json_loads L (strip_fences (strip response))")
        case None
        then show ?thesis using r ne p a by (simp add: generate_user_friendly_bugs_def)
      next
        case j: (Some parsed)
        show ?thesis
        proof (cases "validate_bugs L test_url failures 0 (take 5 (as_list parsed))")
          case (Inl e)
          then show ?thesis using r ne p a j by (simp add: generate_user_friendly_bugs_def)
        next
          case v: (Inr vs)
          then have "res = Inr vs" "n' = Suc n"
            using r ne p a j by (simp_all add: generate_user_friendly_bugs_def)
          then show ?thesis using ne v by blast
        qed
      qed
    qed
  qed
qed

lemma generate_bound:
  assumes "generate_user_friendly_bugs L g n failures test_url page sa = (Inr bs, n')"
  shows "length bs \<le> min 5 (length failures) \<and> n' \<le> Suc n"
proof -
  from generate_cases[OF assms]
  consider "failures = [] \<and> Inr bs = (Inr [] :: exn + bug list) \<and> n' = n"
    | "Inr bs = create_simple_bugs L failures test_url page \<and> n' \<le> Suc n"
    | parsed where "n' = Suc n"
        "validate_bugs L test_url failures 0 (take 5 (as_list parsed)) = Inr bs"
    by auto
  then show ?thesis
  proof cases
    case 1
    then show ?thesis by simp
  next
    case 2
    then show ?thesis using create_simple_bugs_length[of L failures test_url page bs] by simp
  next
    case 3
    from validate_bugs_length[OF 3(2)] show ?thesis using 3(1) by simp
  qed
qed

lemma generate_total:
  assumes "list_all text_failure failures"
  shows "\<exists>bs n'. generate_user_friendly_bugs L g n failures test_url page sa = (Inr bs, n')"
proof -
  obtain res n' where r: "generate_user_friendly_bugs L g n failures test_url page sa = (res, n')"
    by (cases "generate_user_friendly_bugs L g n failures test_url page sa") auto
  obtain sb where sb: "create_simple_bugs L failures test_url page = Inr sb"
    using create_simple_bugs_total[OF assms] by blast
  have "\<exists>bs. res = Inr bs" using generate_cases[OF r] sb by auto
  then show ?thesis using r by auto
qed

text \<open>
  Claim C3. With no failures, bug generation returns the empty list and makes no generative
  call (the number of calls is unchanged, whatever the oracle). Otherwise at most one call
  is made, and every list it returns has at most five bugs and at most as many as there are
  failures, whatever the oracle answers: when the call raises, when the answer is not JSON,
  and when validation of the parsed answer raises (an element that is not an object, a
  severity that is not a string), the result is that of the simple-bug generator, which has
  exactly one bug for each of the first five failures. When the failures carry texts, a
  list is always returned.
\<close>

theorem bug_generation_bound:
  "generate_user_friendly_bugs L g n [] test_url page sa = (Inr [], n) \<and>
   (generate_user_friendly_bugs L g n failures test_url page sa = (Inr bs, n') \<longrightarrow>
      length bs \<le> min 5 (length failures) \<and> n' \<le> Suc n) \<and>
   (list_all text_failure failures \<longrightarrow>
      (\<exists>bs' k. generate_user_friendly_bugs L g n failures test_url page sa = (Inr bs', k) \<and>
         length bs' \<le> min 5 (length failures))) \<and>
   (create_simple_bugs L failures test_url page = Inr sb \<longrightarrow>
      length sb = min 5 (length failures)) \<and>
   (failures \<noteq> [] \<and> bug_prompt L failures test_url page sa = Inr prompt \<and> g n prompt = Inl e \<longrightarrow>
      generate_user_friendly_bugs L g n failures test_url page sa =
        (create_simple_bugs L failures test_url page, Suc n)) \<and>
   (failures \<noteq> [] \<and> bug_prompt L failures test_url page sa = Inr prompt \<and>
    g n prompt = Inr response \<and> json_loads L (strip_fences (strip response)) = None \<longrightarrow>
      generate_user_friendly_bugs L g n failures test_url page sa =
        (create_simple_bugs L failures test_url page, Suc n)) \<and>
   (failures \<noteq> [] \<and> bug_prompt L failures test_url page sa = Inr prompt \<and>
    g n prompt = Inr response \<and> json_loads L (strip_fences (strip response)) = Some parsed \<and>
    validate_bugs L test_url failures 0 (take 5 (as_list parsed)) = Inl e \<longrightarrow>
      generate_user_friendly_bugs L g n failures test_url page sa =
        (create_simple_bugs L failures test_url page, Suc n))"
proof (intro conjI impI)
  show "generate_user_friendly_bugs L g n [] test_url page sa = (Inr [], n)"
    by (simp add: generate_user_friendly_bugs_def)
next
  assume a: "generate_user_friendly_bugs L g n failures test_url page sa = (Inr bs, n')"
  show "length bs \<le> min 5 (length failures)" using generate_bound[OF a] by simp
  show "n' \<le> Suc n" using generate_bound[OF a] by simp
next
  assume t: "list_all text_failure failures"
  from generate_total[OF t, of L g n test_url page sa]
  obtain bs' k where r: "generate_user_friendly_bugs L g n failures test_url page sa = (Inr bs', k)"
    by blast
  from generate_bound[OF r] have "length bs' \<le> min 5 (length failures)" by simp
  then show "\<exists>bs' k. generate_user_friendly_bugs L g n failures test_url page sa = (Inr bs', k) \<and>
         length bs' \<le> min 5 (length failures)" using r by blast
next
  assume "create_simple_bugs L failures test_url page = Inr sb"
  then show "length sb = min 5 (length failures)" by (rule create_simple_bugs_length)
next
  assume "failures \<noteq> [] \<and> bug_prompt L failures test_url page sa = Inr prompt \<and> g n prompt = Inl e"
  then show "generate_user_friendly_bugs L g n failures test_url page sa =
        (create_simple_bugs L failures test_url page, Suc n)"
    by (simp add: generate_user_friendly_bugs_def)
next
  assume "failures \<noteq> [] \<and> bug_prompt L failures test_url page sa = Inr prompt \<and>
    g n prompt = Inr response \<and> json_loads L (strip_fences (strip response)) = None"
  then show "generate_user_friendly_bugs L g n failures test_url page sa =
        (create_simple_bugs L failures test_url page, Suc n)"
    by (simp add: generate_user_friendly_bugs_def)
next
  assume "failures \<noteq> [] \<and> bug_prompt L failures test_url page sa = Inr prompt \<and>
    g n prompt = Inr response \<and> json_loads L (strip_fences (strip response)) = Some parsed \<and>
    validate_bugs L test_url failures 0 (take 5 (as_list parsed)) = Inl e"
  then show "generate_user_friendly_bugs L g n failures test_url page sa =
        (create_simple_bugs L failures test_url page, Suc n)"
    by (simp add: generate_user_friendly_bugs_def)
qed

theorem bug_generation_bound_witness:
  "list_all text_failure [signup_failure, login_failure] \<and>
   (\<exists>bs k. generate_user_friendly_bugs example_lib failing_gen 0 [signup_failure, login_failure]
              ''https://example.com'' None no_analysis = (Inr bs, k) \<and>
            length bs \<le> min 5 (length [signup_failure, login_failure])) \<and>
   (\<exists>bs k. generate_user_friendly_bugs seven_lib chatty_gen 0 [signup_failure, login_failure]
              ''https://example.com'' None no_analysis = (Inr bs, k) \<and>
            length bs \<le> min 5 (length [signup_failure, login_failure])) \<and>
   generate_user_friendly_bugs example_lib failing_gen 0 [] ''https://example.com'' None no_analysis =
     (Inr [], 0)"
proof -
  have h: "list_all text_failure [signup_failure, login_failure]" by code_simp
  note t1 = bug_generation_bound[of example_lib failing_gen 0 "''https://example.com''" None
      no_analysis "[signup_failure, login_failure]"]
  note t2 = bug_generation_bound[of seven_lib chatty_gen 0 "''https://example.com''" None
      no_analysis "[signup_failure, login_failure]"]
  have a: "\<exists>bs k. generate_user_friendly_bugs example_lib failing_gen 0 [signup_failure, login_failure]
              ''https://example.com'' None no_analysis = (Inr bs, k) \<and>
            length bs \<le> min 5 (length [signup_failure, login_failure])"
    using conjunct1[OF conjunct2[OF conjunct2[OF t1]], THEN mp, OF h] .
  have b: "\<exists>bs k. generate_user_friendly_bugs seven_lib chatty_gen 0 [signup_failure, login_failure]
              ''https://example.com'' None no_analysis = (Inr bs, k) \<and>
            length bs \<le> min 5 (length [signup_failure, login_failure])"
    using conjunct1[OF conjunct2[OF conjunct2[OF t2]], THEN mp, OF h] .
  have c: "generate_user_friendly_bugs example_lib failing_gen 0 [] ''https://example.com'' None
      no_analysis = (Inr [], 0)"
    using conjunct1[OF t1] .
  show ?thesis using h a b c by blast
qed

section \<open>Recommendation generation\<close>

lemma review_length:
  "review_recommendations L failures test_url page sa cands = Inr vs \<Longrightarrow> length vs \<le> length cands"
proof (induction cands arbitrary: vs)
  case Nil
  then show ?case by simp
next
  case (Cons c cs)
  then obtain v ref vs' where
    r: "review_recommendations L failures test_url page sa cs = Inr vs'"
    and vs: "vs = (if failures \<noteq> [] \<or> has_url_ref test_url v \<or> ref then v # vs' else vs')"
    by (auto simp: seq_Inr_iff)
  from Cons.IH[OF r] show ?case using vs by auto
qed

lemma review_relevant:
  "review_recommendations L failures test_url page sa cands = Inr vs \<Longrightarrow> v \<in> set vs \<Longrightarrow>
     failures \<noteq> [] \<or> has_url_ref test_url v \<or> has_element_ref page sa v = Inr True"
proof (induction cands arbitrary: vs)
  case Nil
  then show ?case by simp
next
  case (Cons c cs)
  from Cons.prems(1) obtain w ref vs' where
    e: "has_element_ref page sa w = Inr ref"
    and r: "review_recommendations L failures test_url page sa cs = Inr vs'"
    and vs: "vs = (if failures \<noteq> [] \<or> has_url_ref test_url w \<or> ref then w # vs' else vs')"
    by (auto simp: seq_Inr_iff)
  show ?case
  proof (cases "v \<in> set vs'")
    case True
    then show ?thesis using Cons.IH[OF r] by simp
  next
    case False
    then have "v = w" "failures \<noteq> [] \<or> has_url_ref test_url w \<or> ref"
      using vs Cons.prems(2) by (auto split: if_splits)
    then show ?thesis using e by auto
  qed
qed

lemma review_keeps_all:
  "failures \<noteq> [] \<Longrightarrow> review_recommendations L failures test_url page sa cands = Inr vs \<Longrightarrow>
     traverse (validate_recommendation L) cands = Inr vs"
proof (induction cands arbitrary: vs)
  case Nil
  then show ?case by simp
next
  case (Cons c cs)
  from Cons.prems(2) obtain w ref vs' where
    v: "validate_recommendation L c = Inr w"
    and r: "review_recommendations L failures test_url page sa cs = Inr vs'"
    and vs: "vs = (if failures \<noteq> [] \<or> has_url_ref test_url w \<or> ref then w # vs' else vs')"
    by (auto simp: seq_Inr_iff)
  have "traverse (validate_recommendation L) cs = Inr vs'" using Cons.IH[OF Cons.prems(1) r] .
  then show ?case using v vs Cons.prems(1) by simp
qed

lemma any_element_ref_True:
  "any_element_ref d t es = Inr True \<Longrightarrow>
     \<exists>s. JStr s \<in> set es \<and> 3 < length s \<and> (contains d (lower s) \<or> contains t (lower s))"
proof (induction es)
  case Nil
  then show ?case by simp
next
  case (Cons x xs)
  show ?case
  proof (cases "\<exists>s. x = JStr s \<and> 3 < length s \<and> (contains d (lower s) \<or> contains t (lower s))")
    case True
    then show ?thesis by auto
  next
    case False
    have "any_element_ref d t xs = Inr True"
    proof (cases x)
      case (JStr s)
      then show ?thesis using Cons.prems False by (auto split: if_splits)
    qed (use Cons.prems in \<open>auto split: if_splits simp: seq_Inr_iff\<close>)
    then show ?thesis using Cons.IH by auto
  qed
qed

lemma strings_of_mem: "JStr s \<in> set xs \<Longrightarrow> s \<in> set (strings_of (JArr xs))"
  by (induction xs) (auto split: json.splits)

lemma all_elements_strings:
  assumes "all_elements page sa = Inr es" "JStr s \<in> set es"
  shows "s \<in> set (observed_texts page sa)"
proof -
  from assms(1) obtain hs bs where
    h: "py_take 5 (page_get page ''headings'' (JArr [])) = Inr hs"
    and b: "py_take 5 (page_get page ''buttons'' (JArr [])) = Inr bs"
    and c: "(case (hs, bs) of
         (JArr h, JArr b) \<Rightarrow> Inr (h @ b @ map JStr (take 5 (test_names sa)))
       | (JArr h, _) \<Rightarrow>
           Inl (TypeError (''can only concatenate list (not '' @ dq @ type_name bs @ dq @ '') to list''))
       | (_, JArr b) \<Rightarrow>
           Inl (TypeError (''can only concatenate str (not '' @ dq @ ''list'' @ dq @ '') to str''))
       | _ \<Rightarrow>
           Inl (TypeError (''can only concatenate str (not '' @ dq @ ''list'' @ dq @ '') to str''))) = Inr es"
    unfolding all_elements_def by (auto simp: seq_Inr_iff)
  from c obtain h' b' where hb: "hs = JArr h'" "bs = JArr b'"
    and es: "es = h' @ b' @ map JStr (take 5 (test_names sa))"
    by (auto split: json.splits)
  from h hb obtain hx where hx: "page_get page ''headings'' (JArr []) = JArr hx" "h' = take 5 hx"
    by (cases "page_get page ''headings'' (JArr [])") auto
  from b hb obtain bx where bx: "page_get page ''buttons'' (JArr []) = JArr bx" "b' = take 5 bx"
    by (cases "page_get page ''buttons'' (JArr [])") auto
  from assms(2) es consider "JStr s \<in> set h'" | "JStr s \<in> set b'" | "s \<in> set (take 5 (test_names sa))"
    by auto
  then show ?thesis
  proof cases
    case 1
    then have "JStr s \<in> set hx" using hx(2) by (auto dest: in_set_takeD)
    then show ?thesis using hx(1) strings_of_mem by (simp add: observed_texts_def)
  next
    case 2
    then have "JStr s \<in> set bx" using bx(2) by (auto dest: in_set_takeD)
    then show ?thesis using bx(1) strings_of_mem by (simp add: observed_texts_def)
  next
    case 3
    then show ?thesis by (auto simp: observed_texts_def dest: in_set_takeD)
  qed
qed

lemma has_element_ref_mentions:
  assumes "has_element_ref page sa r = Inr True"
  shows "\<exists>t \<in> set (observed_texts page sa). 3 < length t \<and> mentions t r"
proof -
  from assms obtain es where es: "all_elements page sa = Inr es"
    and a: "any_element_ref (lower (rec_description r)) (lower (rec_title r)) es = Inr True"
    unfolding has_element_ref_def by (auto split: if_splits simp: seq_Inr_iff)
  from any_element_ref_True[OF a] obtain s where s: "JStr s \<in> set es" "3 < length s"
    "contains (lower (rec_description r)) (lower s) \<or> contains (lower (rec_title r)) (lower s)"
    by blast
  have "s \<in> set (observed_texts page sa)" using all_elements_strings[OF es s(1)] .
  moreover have "mentions s r" using s(3) by (auto simp: mentions_def)
  ultimately show ?thesis using s(2) by blast
qed

lemma has_url_ref_mentions: "has_url_ref test_url r = mentions test_url r"
  by (auto simp: has_url_ref_def mentions_def)

lemma fallback_list_single:
  "fallback_list L failures test_url page sa = Inr fbs \<Longrightarrow>
     \<exists>fb. create_user_friendly_fallback L failures test_url page sa = Inr fb \<and> fbs = [fb]"
  by (auto simp: fallback_list_def seq_Inr_iff)

lemma try_cases:
  assumes "recommendations_try L g n failures test_url tr script page = (res, n')"
  shows "(\<exists>e. res = Inl e) \<or>
         res = fallback_list L failures test_url page (parse_test_script L script) \<or>
         (\<exists>parsed vs. res = Inr vs \<and> vs \<noteq> [] \<and>
            review_recommendations L failures test_url page (parse_test_script L script)
              (take 5 (as_list parsed)) = Inr vs)"
proof (cases "rec_prompt L failures test_url tr page (parse_test_script L script)")
  case (Inl e)
  then show ?thesis using assms by (auto simp: recommendations_try_def Let_def)
next
  case p: (Inr prompt)
  show ?thesis
  proof (cases "g n prompt")
    case (Inl e)
    then show ?thesis using assms p by (auto simp: recommendations_try_def Let_def)
  next
    case a: (Inr response)
    show ?thesis
    proof (cases "json_loads L (strip_fences (strip response))")
      case None
      then show ?thesis using assms p a by (auto simp: recommendations_try_def Let_def)
    next
      case j: (Some parsed)
      show ?thesis
      proof (cases "review_recommendations L failures test_url page (parse_test_script L script)
              (take 5 (as_list parsed))")
        case (Inl e)
        then have "res = Inl e" using assms p a j by (simp add: recommendations_try_def Let_def)
        then show ?thesis by blast
      next
        case v: (Inr vs)
        show ?thesis
        proof (cases "vs = []")
          case True
          then have "res = fallback_list L failures test_url page (parse_test_script L script)"
            using assms p a j v by (simp add: recommendations_try_def Let_def)
          then show ?thesis by blast
        next
          case False
          then have "res = Inr vs" using assms p a j v by (simp add: recommendations_try_def Let_def)
          then show ?thesis using False v by blast
        qed
      qed
    qed
  qed
qed

lemma ask_cases:
  assumes "ask_gemini_for_recommendations L g n failures test_url tr script page = (res, n')"
  shows "res = fallback_list L failures test_url page (parse_test_script L script) \<or>
         (\<exists>parsed vs. res = Inr vs \<and> vs \<noteq> [] \<and>
            review_recommendations L failures test_url page (parse_test_script L script)
              (take 5 (as_list parsed)) = Inr vs)"
proof -
  obtain r k where t: "recommendations_try L g n failures test_url tr script page = (r, k)"
    by (cases "recommendations_try L g n failures test_url tr script page") auto
  show ?thesis
  proof (cases r)
    case (Inl e)
    then show ?thesis using assms t by (simp add: ask_gemini_for_recommendations_def)
  next
    case (Inr recs)
    then have "res = r" using assms t by (simp add: ask_gemini_for_recommendations_def)
    then show ?thesis using try_cases[OF t] Inr by auto
  qed
qed


lemma list_of_texts_obtain:
  "list_of_texts v \<Longrightarrow> \<exists>xs. v = JArr xs \<and> list_all is_str xs"
  by (cases v) auto

lemma first_match_total: "list_all is_str hs \<Longrightarrow> \<exists>m. first_match t hs = Inr m"
proof (induction hs)
  case Nil
  then show ?case by simp
next
  case (Cons h hs)
  then obtain s where "h = JStr s" by (cases h) auto
  then show ?case using Cons by auto
qed

lemma matched_elements_total:
  assumes "list_all is_str hs" "list_all is_str bs"
  shows "\<exists>m. matched_elements L hs bs t = Inr m"
proof -
  obtain mh where mh: "first_match (lower t) hs = Inr mh" using first_match_total[OF assms(1)] by blast
  obtain mb where mb: "first_match (lower t) bs = Inr mb" using first_match_total[OF assms(2)] by blast
  show ?thesis by (simp add: matched_elements_def mh mb)
qed

lemma untested_button_total: "is_str b \<Longrightarrow> \<exists>u. untested_button L t b = Inr u"
  by (cases b) (auto simp: untested_button_def)

lemma page_elements_total:
  assumes "snapshot_ok page"
  shows "\<exists>p. page_elements L page sa = Inr p"
proof (cases "page_present page")
  case False
  then show ?thesis by (simp add: page_elements_def)
next
  case True
  obtain hx where hx: "page_get page ''headings'' (JArr []) = JArr hx" "list_all is_str hx"
    using assms list_of_texts_obtain unfolding snapshot_ok_def by blast
  obtain bx where bx: "page_get page ''buttons'' (JArr []) = JArr bx" "list_all is_str bx"
    using assms list_of_texts_obtain unfolding snapshot_ok_def by blast
  have h3: "list_all is_str (take 3 hx)" using hx(2) by (auto simp: list_all_iff dest: in_set_takeD)
  have b3: "list_all is_str (take 3 bx)" using bx(2) by (auto simp: list_all_iff dest: in_set_takeD)
  obtain ms where ms: "traverse (matched_elements L (take 3 hx) (take 3 bx)) (take 5 (element_texts sa)) = Inr ms"
    using traverse_total[of "take 5 (element_texts sa)" "matched_elements L (take 3 hx) (take 3 bx)"]
      matched_elements_total[OF h3 b3] by blast
  have "\<And>x. x \<in> set (take 10 bx) \<Longrightarrow> \<exists>u. untested_button L (join '' '' (map lower (element_texts sa))) x = Inr u"
    using bx(2) untested_button_total by (auto simp: list_all_iff dest: in_set_takeD)
  then obtain us where us: "traverse (untested_button L (join '' '' (map lower (element_texts sa)))) (take 10 bx) = Inr us"
    using traverse_total by blast
  show ?thesis using True by (simp add: page_elements_def hx(1) bx(1) ms us)
qed

lemma fallback_total_failed:
  "is_str (f_error f) \<Longrightarrow> \<exists>fb. create_user_friendly_fallback L (f # fs) test_url page sa = Inr fb"
  by (cases "f_error f") (auto simp: create_user_friendly_fallback_def Let_def)

lemma fallback_total_passed:
  assumes "snapshot_ok page"
  shows "\<exists>fb. create_user_friendly_fallback L [] test_url page sa = Inr fb"
proof -
  obtain a u where "page_elements L page sa = Inr (a, u)"
    using page_elements_total[OF assms] by (metis surj_pair)
  then show ?thesis by (simp add: create_user_friendly_fallback_def Let_def)
qed

lemma fallback_total:
  assumes "failures = [] \<and> snapshot_ok page \<or> failures \<noteq> [] \<and> is_str (f_error (hd failures))"
  shows "\<exists>fb. create_user_friendly_fallback L failures test_url page sa = Inr fb"
proof (cases failures)
  case Nil
  then show ?thesis using assms fallback_total_passed by auto
next
  case (Cons f fs)
  then show ?thesis using assms fallback_total_failed by auto
qed

lemma ask_total:
  assumes "create_user_friendly_fallback L failures test_url page (parse_test_script L script) = Inr fb"
  shows "\<exists>recs n'. ask_gemini_for_recommendations L g n failures test_url tr script page = (Inr recs, n')"
proof -
  obtain res n' where r: "ask_gemini_for_recommendations L g n failures test_url tr script page = (res, n')"
    by (cases "ask_gemini_for_recommendations L g n failures test_url tr script page") auto
  have "fallback_list L failures test_url page (parse_test_script L script) = Inr [fb]"
    by (simp add: fallback_list_def assms)
  then have "\<exists>recs. res = Inr recs" using ask_cases[OF r] by auto
  then show ?thesis using r by auto
qed

lemma ask_bounds:
  assumes r: "ask_gemini_for_recommendations L g n failures test_url tr script page = (Inr recs, n')"
  shows "1 \<le> length recs \<and> length recs \<le> 5 \<and>
     ((\<exists>fb. create_user_friendly_fallback L failures test_url page (parse_test_script L script) = Inr fb \<and>
            recs = [fb]) \<or>
      (\<exists>parsed. review_recommendations L failures test_url page (parse_test_script L script)
                   (take 5 (as_list parsed)) = Inr recs) \<and>
      (\<forall>r\<in>set recs. failures \<noteq> [] \<or> mentions test_url r \<or>
          (\<exists>t\<in>set (observed_texts page (parse_test_script L script)). 3 < length t \<and> mentions t r)))"
proof -
  from ask_cases[OF r]
  consider "Inr recs = fallback_list L failures test_url page (parse_test_script L script)"
    | parsed where "recs \<noteq> []"
        "review_recommendations L failures test_url page (parse_test_script L script)
              (take 5 (as_list parsed)) = Inr recs"
    by auto
  then show ?thesis
  proof cases
    case 1
    then obtain fb where "create_user_friendly_fallback L failures test_url page (parse_test_script L script) = Inr fb"
      "recs = [fb]" using fallback_list_single[of L failures test_url page "parse_test_script L script" recs] by auto
    then show ?thesis by simp
  next
    case 2
    have l: "length recs \<le> 5" using review_length[OF 2(2)] by simp
    have ne: "1 \<le> length recs" using 2(1) by (cases recs) auto
    have rel: "\<forall>r\<in>set recs. failures \<noteq> [] \<or> mentions test_url r \<or>
          (\<exists>t\<in>set (observed_texts page (parse_test_script L script)). 3 < length t \<and> mentions t r)"
    proof
      fix v assume v: "v \<in> set recs"
      from review_relevant[OF 2(2) v]
      show "failures \<noteq> [] \<or> mentions test_url v \<or>
          (\<exists>t\<in>set (observed_texts page (parse_test_script L script)). 3 < length t \<and> mentions t v)"
        using has_element_ref_mentions has_url_ref_mentions by blast
    qed
    show ?thesis using l ne rel 2(2) by blast
  qed
qed

lemma ask_fallback_eq:
  assumes "recommendations_try L g n failures test_url tr script page =
             (fallback_list L failures test_url page (parse_test_script L script), k) \<or>
           (\<exists>e. recommendations_try L g n failures test_url tr script page = (Inl e, k))"
  shows "ask_gemini_for_recommendations L g n failures test_url tr script page =
           (fallback_list L failures test_url page (parse_test_script L script), k)"
  using assms
  by (cases "fallback_list L failures test_url page (parse_test_script L script)")
     (auto simp: ask_gemini_for_recommendations_def)


text \<open>
  Claim C4. Every list the recommendation step returns has between one and five entries.
  It is either the single fallback recommendation, or what the review loop keeps of the
  first five candidates of the parsed answer, and then it is not empty; with no failures
  every kept candidate mentions, case-insensitively in its title or description, the target
  URL or a page heading, page button or script test name of more than three characters.
  With failures every validated candidate is kept. When the call raises, when the answer
  does not parse, and when every candidate is rejected, the result is the one-element
  fallback list. The step returns a list whenever the fallback can be built: for a passing
  run on a snapshot whose headings and buttons are lists of texts (or no snapshot), and for
  failures whose first error is a text.
\<close>

theorem recommendation_bounds:
  "(ask_gemini_for_recommendations L g n fl test_url tr sc pg = (Inr recs, n') \<longrightarrow>
      1 \<le> length recs \<and> length recs \<le> 5 \<and>
      ((\<exists>fb. create_user_friendly_fallback L fl test_url pg (parse_test_script L sc) = Inr fb \<and>
             recs = [fb]) \<or>
       (\<exists>parsed. review_recommendations L fl test_url pg (parse_test_script L sc)
                    (take 5 (as_list parsed)) = Inr recs) \<and>
       (\<forall>r\<in>set recs. fl \<noteq> [] \<or> mentions test_url r \<or>
           (\<exists>t\<in>set (observed_texts pg (parse_test_script L sc)). 3 < length t \<and> mentions t r)))) \<and>
   (fl \<noteq> [] \<and> review_recommendations L fl test_url pg sa cands = Inr vs \<longrightarrow>
      traverse (validate_recommendation L) cands = Inr vs) \<and>
   (rec_prompt L fl test_url tr pg (parse_test_script L sc) = Inr prompt \<and> g n prompt = Inl e \<longrightarrow>
      ask_gemini_for_recommendations L g n fl test_url tr sc pg =
        (fallback_list L fl test_url pg (parse_test_script L sc), Suc n)) \<and>
   (rec_prompt L fl test_url tr pg (parse_test_script L sc) = Inr prompt \<and>
    g n prompt = Inr response \<and> json_loads L (strip_fences (strip response)) = None \<longrightarrow>
      ask_gemini_for_recommendations L g n fl test_url tr sc pg =
        (fallback_list L fl test_url pg (parse_test_script L sc), Suc n)) \<and>
   (rec_prompt L fl test_url tr pg (parse_test_script L sc) = Inr prompt \<and>
    g n prompt = Inr response \<and> json_loads L (strip_fences (strip response)) = Some parsed \<and>
    review_recommendations L fl test_url pg (parse_test_script L sc) (take 5 (as_list parsed)) =
      Inr [] \<longrightarrow>
      ask_gemini_for_recommendations L g n fl test_url tr sc pg =
        (fallback_list L fl test_url pg (parse_test_script L sc), Suc n)) \<and>
   (fallback_list L fl test_url pg sa = Inr fbs \<longrightarrow> length fbs = 1) \<and>
   (fl = [] \<and> snapshot_ok pg \<or> fl \<noteq> [] \<and> is_str (f_error (hd fl)) \<longrightarrow>
      (\<exists>recs' k. ask_gemini_for_recommendations L g n fl test_url tr sc pg = (Inr recs', k) \<and>
         1 \<le> length recs' \<and> length recs' \<le> 5))"
proof -
  have c1: "ask_gemini_for_recommendations L g n fl test_url tr sc pg = (Inr recs, n') \<longrightarrow>
      1 \<le> length recs \<and> length recs \<le> 5 \<and>
      ((\<exists>fb. create_user_friendly_fallback L fl test_url pg (parse_test_script L sc) = Inr fb \<and>
             recs = [fb]) \<or>
       (\<exists>parsed. review_recommendations L fl test_url pg (parse_test_script L sc)
                    (take 5 (as_list parsed)) = Inr recs) \<and>
       (\<forall>r\<in>set recs. fl \<noteq> [] \<or> mentions test_url r \<or>
           (\<exists>t\<in>set (observed_texts pg (parse_test_script L sc)). 3 < length t \<and> mentions t r)))"
    using ask_bounds by blast
  have c2: "fl \<noteq> [] \<and> review_recommendations L fl test_url pg sa cands = Inr vs \<longrightarrow>
      traverse (validate_recommendation L) cands = Inr vs"
    using review_keeps_all by blast
  have c3: "rec_prompt L fl test_url tr pg (parse_test_script L sc) = Inr prompt \<and> g n prompt = Inl e \<longrightarrow>
      ask_gemini_for_recommendations L g n fl test_url tr sc pg =
        (fallback_list L fl test_url pg (parse_test_script L sc), Suc n)"
  proof
    assume a: "rec_prompt L fl test_url tr pg (parse_test_script L sc) = Inr prompt \<and> g n prompt = Inl e"
    then have "recommendations_try L g n fl test_url tr sc pg = (Inl e, Suc n)"
      by (simp add: recommendations_try_def Let_def)
    then show "ask_gemini_for_recommendations L g n fl test_url tr sc pg =
        (fallback_list L fl test_url pg (parse_test_script L sc), Suc n)"
      using ask_fallback_eq by blast
  qed
  have c4: "rec_prompt L fl test_url tr pg (parse_test_script L sc) = Inr prompt \<and>
    g n prompt = Inr response \<and> json_loads L (strip_fences (strip response)) = None \<longrightarrow>
      ask_gemini_for_recommendations L g n fl test_url tr sc pg =
        (fallback_list L fl test_url pg (parse_test_script L sc), Suc n)"
  proof
    assume a: "rec_prompt L fl test_url tr pg (parse_test_script L sc) = Inr prompt \<and>
      g n prompt = Inr response \<and> json_loads L (strip_fences (strip response)) = None"
    then have "recommendations_try L g n fl test_url tr sc pg =
        (fallback_list L fl test_url pg (parse_test_script L sc), Suc n)"
      by (simp add: recommendations_try_def Let_def)
    then show "ask_gemini_for_recommendations L g n fl test_url tr sc pg =
        (fallback_list L fl test_url pg (parse_test_script L sc), Suc n)"
      using ask_fallback_eq by blast
  qed
  have c5: "rec_prompt L fl test_url tr pg (parse_test_script L sc) = Inr prompt \<and>
    g n prompt = Inr response \<and> json_loads L (strip_fences (strip response)) = Some parsed \<and>
    review_recommendations L fl test_url pg (parse_test_script L sc) (take 5 (as_list parsed)) =
      Inr [] \<longrightarrow>
      ask_gemini_for_recommendations L g n fl test_url tr sc pg =
        (fallback_list L fl test_url pg (parse_test_script L sc), Suc n)"
  proof
    assume a: "rec_prompt L fl test_url tr pg (parse_test_script L sc) = Inr prompt \<and>
      g n prompt = Inr response \<and> json_loads L (strip_fences (strip response)) = Some parsed \<and>
      review_recommendations L fl test_url pg (parse_test_script L sc) (take 5 (as_list parsed)) =
        Inr []"
    then have "recommendations_try L g n fl test_url tr sc pg =
        (fallback_list L fl test_url pg (parse_test_script L sc), Suc n)"
      by (simp add: recommendations_try_def Let_def)
    then show "ask_gemini_for_recommendations L g n fl test_url tr sc pg =
        (fallback_list L fl test_url pg (parse_test_script L sc), Suc n)"
      using ask_fallback_eq by blast
  qed
  have c6: "fallback_list L fl test_url pg sa = Inr fbs \<longrightarrow> length fbs = 1"
    using fallback_list_single by fastforce
  have c7: "fl = [] \<and> snapshot_ok pg \<or> fl \<noteq> [] \<and> is_str (f_error (hd fl)) \<longrightarrow>
      (\<exists>recs' k. ask_gemini_for_recommendations L g n fl test_url tr sc pg = (Inr recs', k) \<and>
         1 \<le> length recs' \<and> length recs' \<le> 5)"
  proof
    assume a: "fl = [] \<and> snapshot_ok pg \<or> fl \<noteq> [] \<and> is_str (f_error (hd fl))"
    obtain fb where "create_user_friendly_fallback L fl test_url pg (parse_test_script L sc) = Inr fb"
      using fallback_total[OF a] by blast
    from ask_total[OF this] obtain recs' k where
      r: "ask_gemini_for_recommendations L g n fl test_url tr sc pg = (Inr recs', k)" by blast
    from ask_bounds[OF r] have "1 \<le> length recs' \<and> length recs' \<le> 5" by blast
    then show "\<exists>recs' k. ask_gemini_for_recommendations L g n fl test_url tr sc pg = (Inr recs', k) \<and>
         1 \<le> length recs' \<and> length recs' \<le> 5" using r by blast
  qed
  show ?thesis
    by (rule conjI[OF c1 conjI[OF c2 conjI[OF c3 conjI[OF c4 conjI[OF c5 conjI[OF c6 c7]]]]]])
qed

lemma ask_seven_failed:
  "ask_gemini_for_recommendations seven_lib chatty_gen 0 [signup_failure] ''https://example.com''
     JNull [] None = (Inr (replicate 5 default_recommendation), 1)"
  by code_simp

lemma ask_seven_passed:
  "ask_gemini_for_recommendations seven_lib chatty_gen 0 [] ''https://example.com'' JNull [] None =
     (Inr [continue_recommendation], 1)"
  by code_simp

theorem recommendation_bounds_witness:
  "ask_gemini_for_recommendations seven_lib chatty_gen 0 [signup_failure] ''https://example.com''
     JNull [] None = (Inr (replicate 5 default_recommendation), 1) \<and>
   1 \<le> length (replicate 5 default_recommendation) \<and>
   length (replicate 5 default_recommendation) \<le> 5 \<and>
   ([] = ([] :: failure list) \<and> snapshot_ok None \<or>
      [] \<noteq> ([] :: failure list) \<and> is_str (f_error (hd []))) \<and>
   (\<exists>recs' k. ask_gemini_for_recommendations example_lib failing_gen 0 [] ''https://example.com''
                 JNull [] None = (Inr recs', k) \<and> 1 \<le> length recs' \<and> length recs' \<le> 5) \<and>
   ask_gemini_for_recommendations seven_lib chatty_gen 0 [] ''https://example.com'' JNull [] None =
     (Inr [continue_recommendation], 1)"
proof -
  note t1 = recommendation_bounds[of seven_lib chatty_gen 0 "[signup_failure]" "''https://example.com''"
      JNull "[]" None "replicate 5 default_recommendation" 1]
  note t2 = recommendation_bounds[of example_lib failing_gen 0 "[]" "''https://example.com''"
      JNull "[]" None]
  have a: "1 \<le> length (replicate 5 default_recommendation) \<and>
      length (replicate 5 default_recommendation) \<le> 5"
    using conjunct1[OF t1, THEN mp, OF ask_seven_failed] by blast
  have h: "[] = ([] :: failure list) \<and> snapshot_ok None \<or>
      [] \<noteq> ([] :: failure list) \<and> is_str (f_error (hd []))"
    by (simp add: snapshot_ok_def page_get_def)
  have b: "\<exists>recs' k. ask_gemini_for_recommendations example_lib failing_gen 0 [] ''https://example.com''
                 JNull [] None = (Inr recs', k) \<and> 1 \<le> length recs' \<and> length recs' \<le> 5"
    using conjunct2[OF conjunct2[OF conjunct2[OF conjunct2[OF conjunct2[OF conjunct2[OF t2]]]]],
        THEN mp, OF h] .
  show ?thesis using a b h ask_seven_failed ask_seven_passed by blast
qed

section \<open>The run as a whole\<close>

lemma handler_recommendations:
  "\<exists>recs. fst (ask_gemini_for_recommendations L g n [\<lparr> f_title = t, f_error = JStr s \<rparr>]
             test_url tr script page) = Inr recs"
proof -
  have "is_str (f_error \<lparr> f_title = t, f_error = JStr s \<rparr>)" by simp
  from fallback_total_failed[OF this]
  obtain fb where "create_user_friendly_fallback L [\<lparr> f_title = t, f_error = JStr s \<rparr>] test_url page
      (parse_test_script L script) = Inr fb"
    by blast
  from ask_total[OF this] show ?thesis by (metis fst_conv)
qed

lemma on_timeout_returns:
  "\<exists>r. on_timeout L E script test_url page st = Inr r \<and> status r = ''timeout'' \<and> \<not> success r \<and>
       bugs r = [timeout_bug test_url] \<and> screenshots r = [] \<and> duration r = l_duration st \<and>
       logs r = l_logs st @ [''Test execution timeout (300s limit)'']"
proof -
  obtain recs where "fst (ask_gemini_for_recommendations L (gen E) (l_calls st)
                 [\<lparr> f_title = JStr ''Test Timeout'', f_error = JStr ''Execution exceeded 300s limit'' \<rparr>]
                 test_url JNull script page) = Inr recs"
    using handler_recommendations by blast
  then show ?thesis by (simp add: on_timeout_def)
qed

lemma on_error_returns:
  "\<exists>r. on_error L E script test_url page e st = Inr r \<and> status r = ''error'' \<and> \<not> success r \<and>
       bugs r = [error_bug e] \<and> screenshots r = [] \<and> duration r = l_duration st \<and>
       logs r = l_logs st @ [''Unexpected error: '' @ exn_str e]"
proof -
  obtain recs where "fst (ask_gemini_for_recommendations L (gen E) (l_calls st)
                 [\<lparr> f_title = JStr ''Execution Error'', f_error = JStr (exn_str e) \<rparr>]
                 test_url JNull script page) = Inr recs"
    using handler_recommendations by blast
  then show ?thesis by (simp add: on_error_def)
qed

lemma dict_fromkeys_fold:
  "distinct acc \<Longrightarrow>
     distinct (fold (\<lambda>x seen. if x \<in> set seen then seen else seen @ [x]) xs acc) \<and>
     set (fold (\<lambda>x seen. if x \<in> set seen then seen else seen @ [x]) xs acc) = set acc \<union> set xs"
  by (induction xs arbitrary: acc) auto

lemma dict_fromkeys_distinct: "distinct (dict_fromkeys xs) \<and> set (dict_fromkeys xs) = set xs"
  using dict_fromkeys_fold[of "[]" xs] by (simp add: dict_fromkeys_def)

lemma after_run_returns:
  assumes "after_run L E script test_url page logs0 out err = Inr r"
  shows "(status r = ''passed'' \<or> status r = ''failed'') \<and> success r \<and> distinct (logs r) \<and>
         duration r = format_duration L (elapsed_ms E)"
  using assms dict_fromkeys_distinct
  unfolding after_run_def Let_def
  by (auto split: sum.splits prod.splits if_splits)

lemma try_body_returns:
  assumes "try_body L E script test_url page = Inr r"
  shows "(status r = ''passed'' \<or> status r = ''failed'') \<and> success r \<and> distinct (logs r) \<and>
         duration r = format_duration L (elapsed_ms E)"
  using assms after_run_returns
  unfolding try_body_def Let_def
  by (auto split: option.splits sum.splits prod.splits)

lemma try_body_timeout:
  assumes "open_error E = None" "write_error E = None" "proc E = Inl (TimeoutExpired m)"
  shows "try_body L E script test_url page =
     Inl (TimeoutExpired m,
          \<lparr> l_logs = [''Screenshot dir: '' @ screenshot_dir E, ''Saved test file: '' @ tmp_file E,
                       ''Executing: '' @ command_line E],
            l_duration = ''0s'', l_calls = 0 \<rparr>)"
  using assms by (simp add: try_body_def Let_def)

lemma run_script_result:
  "fst (run_script L E fs script_content test_url page) =
     (case try_body L E (clean_script script_content) test_url page of
        Inr resp \<Rightarrow> Inr resp
      | Inl (TimeoutExpired m, st) \<Rightarrow> on_timeout L E (clean_script script_content) test_url page st
      | Inl (e, st) \<Rightarrow> on_error L E (clean_script script_content) test_url page e st)"
  by (simp add: run_script_def Let_def)

lemma run_script_returns:
  "\<exists>r. fst (run_script L E fs script_content test_url page) = Inr r \<and>
     ((status r = ''passed'' \<or> status r = ''failed'') \<and> success r \<or>
      (status r = ''timeout'' \<or> status r = ''error'') \<and> \<not> success r)"
proof (cases "try_body L E (clean_script script_content) test_url page")
  case (Inr r)
  then show ?thesis using try_body_returns[OF Inr] by (simp add: run_script_result)
next
  case (Inl p)
  obtain e st where p: "p = (e, st)" by (cases p) auto
  show ?thesis
  proof (cases "\<exists>m. e = TimeoutExpired m")
    case True
    then obtain m where m: "e = TimeoutExpired m" by blast
    obtain r where "on_timeout L E (clean_script script_content) test_url page st = Inr r"
      "status r = ''timeout''" "\<not> success r"
      using on_timeout_returns by blast
    then show ?thesis using Inl p m by (simp add: run_script_result)
  next
    case False
    obtain r where r: "on_error L E (clean_script script_content) test_url page e st = Inr r"
      "status r = ''error''" "\<not> success r"
      using on_error_returns by blast
    have "fst (run_script L E fs script_content test_url page) =
        on_error L E (clean_script script_content) test_url page e st"
      using Inl p False by (cases e) (simp_all add: run_script_result)
    then show ?thesis using r by simp
  qed
qed

lemma cleanup_removes:
  assumes "remove_error E = None" "rmtree_error E = None"
  shows "tmp_file E \<notin> cleanup E fs \<and> screenshot_dir E \<notin> cleanup E fs"
  using assms by (auto simp: cleanup_def Let_def)

lemma run_script_files:
  "snd (run_script L E fs script_content test_url page) =
     cleanup E (if open_error E = None then insert (tmp_file E) (insert (screenshot_dir E) fs)
                else insert (screenshot_dir E) fs)"
  by (simp add: run_script_def Let_def)

lemma failed_run_status:
  "map_option status (outcome (run_script example_lib passing_env {} example_script
     ''https://example.com'' None)) = Some ''failed''"
  by code_simp

text \<open>
  Claim C1. For every script text, target URL and page snapshot, whatever the runner
  prints, whether it crashes or exceeds the ceiling, and whatever the generative calls do
  (answer, raise, or answer with text that is not JSON or not of the asked shape), the call
  of \<open>run_script\<close> returns a response and raises nothing, and the status of the response is
  one of passed, failed, timeout and error. The bugs and the recommendations of a response
  are lists in every case.
\<close>

theorem run_script_total:
  "\<exists>r. fst (run_script L E fs script_content test_url page) = Inr r \<and>
       status r \<in> {''passed'', ''failed'', ''timeout'', ''error''}"
proof -
  obtain r where "fst (run_script L E fs script_content test_url page) = Inr r"
    "(status r = ''passed'' \<or> status r = ''failed'') \<and> success r \<or>
     (status r = ''timeout'' \<or> status r = ''error'') \<and> \<not> success r"
    using run_script_returns by blast
  then show ?thesis by auto
qed

theorem run_script_total_witness:
  "(\<exists>r. fst (run_script example_lib passing_env {} example_script ''https://example.com'' None) = Inr r \<and>
        status r \<in> {''passed'', ''failed'', ''timeout'', ''error''}) \<and>
   (\<exists>r. fst (run_script example_lib null_suites_env {} example_script ''https://example.com'' None) = Inr r \<and>
        status r \<in> {''passed'', ''failed'', ''timeout'', ''error''})"
  using run_script_total[of example_lib passing_env "{}" example_script "''https://example.com''" None]
    run_script_total[of example_lib null_suites_env "{}" example_script "''https://example.com''" None]
  by (rule conjI)

text \<open>
  Claim C10. In every response the success flag is true exactly when the status is passed
  or failed, and false exactly when it is timeout or error; a run whose tests fail has
  success true. Every run gives a response.
\<close>

theorem success_means_completed:
  "(fst (run_script L E fs script_content test_url page) = Inr r \<longrightarrow>
      (success r \<longleftrightarrow> status r = ''passed'' \<or> status r = ''failed'') \<and>
      (\<not> success r \<longleftrightarrow> status r = ''timeout'' \<or> status r = ''error'') \<and>
      (status r = ''failed'' \<longrightarrow> success r)) \<and>
   (\<exists>r'. fst (run_script L E fs script_content test_url page) = Inr r')"
proof -
  obtain r' where r': "fst (run_script L E fs script_content test_url page) = Inr r'"
    "(status r' = ''passed'' \<or> status r' = ''failed'') \<and> success r' \<or>
     (status r' = ''timeout'' \<or> status r' = ''error'') \<and> \<not> success r'"
    using run_script_returns by blast
  have "fst (run_script L E fs script_content test_url page) = Inr r \<longrightarrow>
      (success r \<longleftrightarrow> status r = ''passed'' \<or> status r = ''failed'') \<and>
      (\<not> success r \<longleftrightarrow> status r = ''timeout'' \<or> status r = ''error'') \<and>
      (status r = ''failed'' \<longrightarrow> success r)"
  proof
    assume "fst (run_script L E fs script_content test_url page) = Inr r"
    then have "r = r'" using r'(1) by simp
    then show "(success r \<longleftrightarrow> status r = ''passed'' \<or> status r = ''failed'') \<and>
      (\<not> success r \<longleftrightarrow> status r = ''timeout'' \<or> status r = ''error'') \<and>
      (status r = ''failed'' \<longrightarrow> success r)" using r'(2) by auto
  qed
  then show ?thesis using r'(1) by blast
qed

theorem success_means_completed_witness:
  "\<exists>r. fst (run_script example_lib passing_env {} example_script ''https://example.com'' None) = Inr r \<and>
       status r = ''failed'' \<and> success r"
proof -
  note t = success_means_completed[of example_lib passing_env "{}" example_script
      "''https://example.com''" None]
  obtain r where r: "fst (run_script example_lib passing_env {} example_script
      ''https://example.com'' None) = Inr r"
    using conjunct2[OF t] by blast
  have "status r = ''failed''" using failed_run_status r by (simp add: outcome_def)
  moreover have "status r = ''failed'' \<longrightarrow> success r"
    using conjunct1[OF success_means_completed[of example_lib passing_env "{}" example_script
      "''https://example.com''" None r]] r by blast
  ultimately show ?thesis using r by blast
qed

text \<open>
  Claim C2, as stated, fails where it says that the script file and the screenshot
  directory are removed on the timeout path: when removing the file raises, the handler of
  the \<^verbatim>\<open>finally\<close> block swallows the exception, and both paths are still there after
  the run.
\<close>

theorem timeout_cleanup_can_fail:
  "map_option status (outcome (run_script example_lib locked_env {} example_script
     ''https://example.com'' None)) = Some ''timeout'' \<and>
   tmp_file locked_env \<in>
     snd (run_script example_lib locked_env {} example_script ''https://example.com'' None) \<and>
   screenshot_dir locked_env \<in>
     snd (run_script example_lib locked_env {} example_script ''https://example.com'' None)"
proof -
  have a: "map_option status (outcome (run_script example_lib locked_env {} example_script
     ''https://example.com'' None)) = Some ''timeout''"
    by code_simp
  have b: "snd (run_script example_lib locked_env {} example_script ''https://example.com'' None) =
      {tmp_file locked_env, screenshot_dir locked_env}"
    by (simp add: run_script_files cleanup_def Let_def locked_env_def timeout_env_def passing_env_def)
  show ?thesis using a b by simp
qed

text \<open>
  Claim C2, amended. When the runner exceeds the ceiling, the run returns a response with
  status timeout, whose bugs are exactly the one canned bug, of severity critical, and whose
  screenshots are empty; the clean-up of the \<^verbatim>\<open>finally\<close> block still runs on this path,
  and when neither removal fails, neither the script file nor the screenshot directory
  exists afterwards.
\<close>

theorem timeout_outcome:
  "open_error E = None \<and> write_error E = None \<and> proc E = Inl (TimeoutExpired m) \<longrightarrow>
     (\<exists>r. fst (run_script L E fs script_content test_url page) = Inr r \<and>
          status r = ''timeout'' \<and> bugs r = [timeout_bug test_url] \<and>
          severity (timeout_bug test_url) = ''critical'' \<and> screenshots r = []) \<and>
     snd (run_script L E fs script_content test_url page) =
       cleanup E (insert (tmp_file E) (insert (screenshot_dir E) fs)) \<and>
     (remove_error E = None \<and> rmtree_error E = None \<longrightarrow>
        tmp_file E \<notin> snd (run_script L E fs script_content test_url page) \<and>
        screenshot_dir E \<notin> snd (run_script L E fs script_content test_url page))"
proof (intro impI)
  assume a: "open_error E = None \<and> write_error E = None \<and> proc E = Inl (TimeoutExpired m)"
  define st where "st = \<lparr> l_logs = [''Screenshot dir: '' @ screenshot_dir E,
      ''Saved test file: '' @ tmp_file E, ''Executing: '' @ command_line E],
      l_duration = ''0s'', l_calls = 0 \<rparr>"
  have t: "try_body L E (clean_script script_content) test_url page = Inl (TimeoutExpired m, st)"
    unfolding st_def using a try_body_timeout by blast
  obtain r where r: "on_timeout L E (clean_script script_content) test_url page st = Inr r"
      "status r = ''timeout''" "bugs r = [timeout_bug test_url]" "screenshots r = []"
    using on_timeout_returns by blast
  have f: "fst (run_script L E fs script_content test_url page) = Inr r"
    by (simp add: run_script_result t r(1))
  have c1: "\<exists>r. fst (run_script L E fs script_content test_url page) = Inr r \<and>
          status r = ''timeout'' \<and> bugs r = [timeout_bug test_url] \<and>
          severity (timeout_bug test_url) = ''critical'' \<and> screenshots r = []"
    using f r by (auto simp: timeout_bug_def)
  have c2: "snd (run_script L E fs script_content test_url page) =
       cleanup E (insert (tmp_file E) (insert (screenshot_dir E) fs))"
    using a by (simp add: run_script_files)
  have c3: "remove_error E = None \<and> rmtree_error E = None \<longrightarrow>
        tmp_file E \<notin> snd (run_script L E fs script_content test_url page) \<and>
        screenshot_dir E \<notin> snd (run_script L E fs script_content test_url page)"
    unfolding c2 using cleanup_removes by blast
  show "(\<exists>r. fst (run_script L E fs script_content test_url page) = Inr r \<and>
          status r = ''timeout'' \<and> bugs r = [timeout_bug test_url] \<and>
          severity (timeout_bug test_url) = ''critical'' \<and> screenshots r = []) \<and>
     snd (run_script L E fs script_content test_url page) =
       cleanup E (insert (tmp_file E) (insert (screenshot_dir E) fs)) \<and>
     (remove_error E = None \<and> rmtree_error E = None \<longrightarrow>
        tmp_file E \<notin> snd (run_script L E fs script_content test_url page) \<and>
        screenshot_dir E \<notin> snd (run_script L E fs script_content test_url page))"
    using c1 c2 c3 by blast
qed

theorem timeout_outcome_witness:
  "(open_error timeout_env = None \<and> write_error timeout_env = None \<and>
    proc timeout_env = Inl (TimeoutExpired ''Command timed out after 300 seconds'')) \<and>
   (remove_error timeout_env = None \<and> rmtree_error timeout_env = None) \<and>
   (\<exists>r. fst (run_script example_lib timeout_env {} example_script ''https://example.com'' None) = Inr r \<and>
        status r = ''timeout'' \<and> bugs r = [timeout_bug ''https://example.com''] \<and>
        severity (timeout_bug ''https://example.com'') = ''critical'' \<and> screenshots r = []) \<and>
   tmp_file timeout_env \<notin>
     snd (run_script example_lib timeout_env {} example_script ''https://example.com'' None) \<and>
   screenshot_dir timeout_env \<notin>
     snd (run_script example_lib timeout_env {} example_script ''https://example.com'' None)"
proof -
  have h1: "open_error timeout_env = None \<and> write_error timeout_env = None \<and>
    proc timeout_env = Inl (TimeoutExpired ''Command timed out after 300 seconds'')"
    by (simp add: timeout_env_def passing_env_def)
  have h2: "remove_error timeout_env = None \<and> rmtree_error timeout_env = None"
    by (simp add: timeout_env_def passing_env_def)
  note t = timeout_outcome[of timeout_env "''Command timed out after 300 seconds''" example_lib "{}"
      example_script "''https://example.com''" None, THEN mp, OF h1]
  show ?thesis using h1 h2 t by blast
qed

text \<open>
  Claim C8 does not hold on the timeout path: the duration is assigned only after the
  runner returns, so a run that waited for the whole ceiling reports the initial
  placeholder.
\<close>

theorem timeout_duration_is_placeholder:
  "map_option status (outcome (run_script example_lib timeout_env {} example_script
     ''https://example.com'' None)) = Some ''timeout'' \<and>
   map_option duration (outcome (run_script example_lib timeout_env {} example_script
     ''https://example.com'' None)) = Some ''0s''"
  by code_simp

text \<open>
  Claim C9 does not hold on the error path: only the normal return removes repeated log
  lines. Here the runner prints a report whose suites are null after writing the same
  warning twice to its diagnostic stream; the walk raises, and the response of the error
  handler carries the warning twice.
\<close>

theorem error_logs_repeat_lines:
  "map_option status (outcome (run_script example_lib null_suites_env {} example_script
     ''https://example.com'' None)) = Some ''error'' \<and>
   map_option logs (outcome (run_script example_lib null_suites_env {} example_script
     ''https://example.com'' None)) =
     Some [''Screenshot dir: /tmp/pw_screens_k2x'',
           ''Saved test file: /tmp/ai_test_3f9a1c.spec.js'',
           ''Executing: '' @ command_line null_suites_env,
           ''STDERR:'', ''warning: deprecated'', ''warning: deprecated'',
           ''Unexpected error: 'NoneType' object is not iterable'']"
  by code_simp

end
